theory Spec2Isabelle
  imports Main
begin

section \<open>Data model\<close>

text \<open>
  The program is \<^verbatim>\<open>src/data/process_data.py\<close>: \<^verbatim>\<open>load_data\<close>, \<^verbatim>\<open>clean_data\<close>,
  \<^verbatim>\<open>save_data\<close> and \<^verbatim>\<open>main\<close>. Its data are pandas DataFrames. A DataFrame is
  modelled by its header (label and \<^verbatim>\<open>dtype.kind\<close> of every column, in order) and its
  rows in positional order; the row index is the default one (0, 1, 2, ...), as
  \<^verbatim>\<open>read_csv\<close> and \<^verbatim>\<open>merge\<close> produce it. A cell is missing (NaN or None), a number
  or a string. Numbers are carried as integers: the program computes with none of them,
  it compares them for equality and stores them. A column of kind \<^verbatim>\<open>O\<close> holds strings
  and missing values, as \<^verbatim>\<open>read_csv\<close> produces it. A Python string is a list of
  characters. The exceptions the pandas and Python operations of the program raise are
  values of the type \<open>error\<close>.
\<close>

datatype error =
  FileNotFoundError | KeyError | ValueError | AttributeError | IndexError | TypeError

datatype cell = NA | Num int | Str string

record frame =
  cols :: "(string \<times> char) list"
  rows :: "cell list list"

definition colnames :: "frame \<Rightarrow> string list" where
  "colnames df = map fst (cols df)"

definition kinds :: "frame \<Rightarrow> char list" where
  "kinds df = map snd (cols df)"

text \<open>Every row has one cell per column.\<close>

definition wf_frame :: "frame \<Rightarrow> bool" where
  "wf_frame df = list_all (\<lambda>r. length r = length (cols df)) (rows df)"

text \<open>The positions of the columns carrying a label, left to right.\<close>

definition positions :: "string \<Rightarrow> frame \<Rightarrow> nat list" where
  "positions name df = filter (\<lambda>i. colnames df ! i = name) [0..<length (cols df)]"

text \<open>Running a function that may raise over a list, left to right, stopping at the
  first exception: what \<^verbatim>\<open>Series.apply\<close> and a \<^verbatim>\<open>for\<close> loop do.\<close>

fun mapE :: "('a \<Rightarrow> error + 'b) \<Rightarrow> 'a list \<Rightarrow> error + 'b list" where
  "mapE f [] = Inr []"
| "mapE f (x # xs) =
     (case f x of
        Inl e \<Rightarrow> Inl e
      | Inr y \<Rightarrow> (case mapE f xs of Inl e \<Rightarrow> Inl e | Inr ys \<Rightarrow> Inr (y # ys)))"

section \<open>The Loader\<close>

text \<open>
  \<^verbatim>\<open>messages.merge(categories, left_on='id', right_on='id', suffixes=('_left', '_right'))\<close>:
  an inner join on the column \<^verbatim>\<open>id\<close>. A frame without that column raises KeyError.
  The result has the columns of the left frame, then those of the right frame without
  its key; a label other than the key that occurs on both sides gets the suffix of its
  side. Its rows are the pairs of a left and a right row with equal keys, in the order
  of the left rows (missing keys match each other, as in pandas). The kinds of the two
  key columns are not compared: where pandas refuses to merge a column of strings with
  a numeric one, the model joins them, and finds no equal keys but missing ones.
\<close>

definition remove_nth :: "nat \<Rightarrow> 'a list \<Rightarrow> 'a list" where
  "remove_nth i xs = take i xs @ drop (Suc i) xs"

definition add_suffix :: "string list \<Rightarrow> string \<Rightarrow> (string \<times> char) \<Rightarrow> (string \<times> char)" where
  "add_suffix others suffix c =
     (if fst c \<noteq> ''id'' \<and> fst c \<in> set others then (fst c @ suffix, snd c) else c)"

definition merge :: "frame \<Rightarrow> frame \<Rightarrow> error + frame" where
  "merge left right =
     (case positions ''id'' left of
        [] \<Rightarrow> Inl KeyError
      | i # _ \<Rightarrow>
          (case positions ''id'' right of
             [] \<Rightarrow> Inl KeyError
           | j # _ \<Rightarrow>
               Inr \<lparr>cols = map (add_suffix (colnames right) ''_left'') (cols left) @
                           map (add_suffix (colnames left) ''_right'') (remove_nth j (cols right)),
                    rows = concat (map (\<lambda>l. map (\<lambda>r. l @ remove_nth j r)
                                                  (filter (\<lambda>r. l ! i = r ! j) (rows right)))
                                       (rows left))\<rparr>))"

text \<open>
  \<^verbatim>\<open>load_data\<close> reads the two files and merges them. Reading a file is the
  parameter \<open>read_csv\<close>: the frame a path parses to, or the exception raised.
\<close>

definition load_data :: "(string \<Rightarrow> error + frame) \<Rightarrow> string \<Rightarrow> string \<Rightarrow> error + frame" where
  "load_data read_csv messages_filepath categories_filepath =
     (case read_csv messages_filepath of
        Inl e \<Rightarrow> Inl e
      | Inr messages \<Rightarrow>
          (case read_csv categories_filepath of
             Inl e \<Rightarrow> Inl e
           | Inr categories \<Rightarrow> merge messages categories))"

section \<open>The Cleaner\<close>

subsection \<open>Strings\<close>

text \<open>Python's \<^verbatim>\<open>s.split(d)\<close> for a one-character separator.\<close>

fun split_on :: "char \<Rightarrow> string \<Rightarrow> string list" where
  "split_on d [] = [[]]"
| "split_on d (c # cs) =
     (if c = d then [] # split_on d cs
      else (c # hd (split_on d cs)) # tl (split_on d cs))"

text \<open>
  \<^verbatim>\<open>Series.str.split(";", expand=True)\<close>: a string becomes its tokens, anything else
  one missing value; every row is then filled up with missing values to the length of
  the longest one.
\<close>

definition tokens :: "cell \<Rightarrow> cell list" where
  "tokens x = (case x of Str s \<Rightarrow> map Str (split_on (CHR '';'') s) | _ \<Rightarrow> [NA])"

definition pad :: "nat \<Rightarrow> cell list \<Rightarrow> cell list" where
  "pad n r = r @ replicate (n - length r) NA"

definition str_split_expand :: "cell list \<Rightarrow> cell list list" where
  "str_split_expand xs =
     (let result = map tokens xs;
          max_len = fold max (map length result) 0
      in map (pad max_len) result)"

text \<open>\<^verbatim>\<open>lambda x: x[:-2]\<close>: slicing a string never raises; a missing value cannot be
  sliced.\<close>

definition strip_suffix :: "cell \<Rightarrow> error + string" where
  "strip_suffix x = (case x of Str s \<Rightarrow> Inr (take (length s - 2) s) | _ \<Rightarrow> Inl TypeError)"

text \<open>\<^verbatim>\<open>lambda x: x[-1]\<close>: the last character; the one-character string is represented
  by its character.\<close>

definition last_char :: "cell \<Rightarrow> error + char" where
  "last_char x =
     (case x of
        Str s \<Rightarrow> (if s = [] then Inl IndexError else Inr (last s))
      | _ \<Rightarrow> Inl TypeError)"

text \<open>\<^verbatim>\<open>int(x)\<close> on a one-character string: a decimal digit or ValueError. Characters
  are the 8-bit characters of HOL, among which 0 to 9 are the only digits \<^verbatim>\<open>int\<close>
  accepts.\<close>

definition py_int :: "char \<Rightarrow> error + int" where
  "py_int c =
     (if c \<in> set ''0123456789'' then Inr (int (of_char c) - 48) else Inl ValueError)"

text \<open>\<^verbatim>\<open>lambda x: 1 if int(x)>0 else 0\<close>\<close>

definition to_binary :: "char \<Rightarrow> error + int" where
  "to_binary x = (case py_int x of Inl e \<Rightarrow> Inl e | Inr v \<Rightarrow> Inr (if v > 0 then 1 else 0))"

subsection \<open>The loop over the category columns\<close>

text \<open>
  One pass of the \<^verbatim>\<open>for\<close> loop: the whole column goes through \<^verbatim>\<open>x[-1]\<close>, then
  through the conversion. When the label of the column occurs more than once,
  \<^verbatim>\<open>categories[column]\<close> is a DataFrame, \<^verbatim>\<open>apply\<close> hands its columns to the lambda
  and \<^verbatim>\<open>x[-1]\<close> on a column raises KeyError.
\<close>

definition convert_column :: "string list \<Rightarrow> string \<times> cell list \<Rightarrow> error + int list" where
  "convert_column names c =
     (if count_list names (fst c) \<noteq> 1 then Inl KeyError
      else (case mapE last_char (snd c) of
              Inl e \<Rightarrow> Inl e
            | Inr xs \<Rightarrow> mapE to_binary xs))"

definition columns_of :: "nat \<Rightarrow> 'a list list \<Rightarrow> 'a list list" where
  "columns_of w rs = map (\<lambda>j. map (\<lambda>r. r ! j) rs) [0..<w]"

definition rows_of :: "nat \<Rightarrow> 'a list list \<Rightarrow> 'a list list" where
  "rows_of n cs = map (\<lambda>i. map (\<lambda>c. c ! i) cs) [0..<n]"

subsection \<open>Dropping, concatenating, deduplicating, filling\<close>

text \<open>\<^verbatim>\<open>df.drop([name], axis=1)\<close> removes every column with that label.\<close>

definition drop_cells :: "string \<Rightarrow> string list \<Rightarrow> 'a list \<Rightarrow> 'a list" where
  "drop_cells name names r = map snd (filter (\<lambda>p. fst p \<noteq> name) (zip names r))"

definition drop_column :: "string \<Rightarrow> frame \<Rightarrow> frame" where
  "drop_column name df =
     \<lparr>cols = filter (\<lambda>c. fst c \<noteq> name) (cols df),
      rows = map (drop_cells name (colnames df)) (rows df)\<rparr>"

text \<open>\<^verbatim>\<open>pd.concat([df, categories], axis=1)\<close> with both frames on the same index: the
  rows are put side by side. The converted columns are of dtype int64, kind \<^verbatim>\<open>i\<close>.\<close>

definition concat_columns :: "frame \<Rightarrow> string list \<Rightarrow> int list list \<Rightarrow> frame" where
  "concat_columns df names converted =
     \<lparr>cols = cols df @ map (\<lambda>n. (n, CHR ''i'')) names,
      rows = map (\<lambda>p. fst p @ map Num (snd p))
                 (zip (rows df) (rows_of (length (rows df)) converted))\<rparr>"

text \<open>\<^verbatim>\<open>drop_duplicates\<close> keeps the first occurrence of every row; two missing values
  count as equal.\<close>

fun dedup :: "'a list \<Rightarrow> 'a list \<Rightarrow> 'a list" where
  "dedup seen [] = []"
| "dedup seen (x # xs) =
     (if x \<in> set seen then dedup seen xs else x # dedup (x # seen) xs)"

definition drop_duplicates :: "'a list \<Rightarrow> 'a list" where
  "drop_duplicates xs = dedup [] xs"

text \<open>\<^verbatim>\<open>x.fillna(0) if x.dtype.kind in 'biufc' else x.fillna('.')\<close>, column by column.\<close>

definition fill_cell :: "char \<Rightarrow> cell \<Rightarrow> cell" where
  "fill_cell kind x =
     (if x = NA then (if kind \<in> set ''biufc'' then Num 0 else Str ''.'') else x)"

definition fill_row :: "char list \<Rightarrow> cell list \<Rightarrow> cell list" where
  "fill_row ks r = map (\<lambda>p. fill_cell (fst p) (snd p)) (zip ks r)"

definition fillna :: "frame \<Rightarrow> frame" where
  "fillna df = \<lparr>cols = cols df, rows = map (fill_row (kinds df)) (rows df)\<rparr>"

subsection \<open>clean\_data\<close>

text \<open>
  The result of \<open>clean_data\<close> is a pair: what the call returns or raises, and the
  state of the DataFrame object that was passed in once the call is over (line 56
  drops a column of that object in place).

  \<^verbatim>\<open>df['categories']\<close> raises KeyError when no column has that label; with several
  such columns it is a DataFrame, which has no \<^verbatim>\<open>str\<close>; with one, \<^verbatim>\<open>.str\<close> is
  there for a column of strings (kind \<^verbatim>\<open>O\<close>) only. \<^verbatim>\<open>iloc[0,:]\<close> raises IndexError
  on a frame without rows.
\<close>

definition clean_data :: "frame \<Rightarrow> (error + frame) \<times> frame" where
  "clean_data df =
     (case positions ''categories'' df of
        [] \<Rightarrow> (Inl KeyError, df)
      | [ci] \<Rightarrow>
          (if kinds df ! ci \<noteq> CHR ''O'' then (Inl AttributeError, df)
           else
             (case str_split_expand (map (\<lambda>r. r ! ci) (rows df)) of
                [] \<Rightarrow> (Inl IndexError, df)
              | row # rest \<Rightarrow>
                  (case mapE strip_suffix row of
                     Inl e \<Rightarrow> (Inl e, df)
                   | Inr category_colnames \<Rightarrow>
                       (case mapE (convert_column category_colnames)
                                  (zip category_colnames
                                       (columns_of (length row) (row # rest))) of
                          Inl e \<Rightarrow> (Inl e, df)
                        | Inr converted \<Rightarrow>
                            (let df1 = drop_column ''categories'' df;
                                 df2 = concat_columns df1 category_colnames converted;
                                 df3 = df2\<lparr>rows := drop_duplicates (rows df2)\<rparr>
                             in (Inr (fillna df3), df1))))))
      | _ \<Rightarrow> (Inl AttributeError, df))"

text \<open>What the call returns or raises.\<close>

definition cleaned :: "frame \<Rightarrow> error + frame" where
  "cleaned df = fst (clean_data df)"

section \<open>The Writer\<close>

text \<open>
  The store maps the URL of an engine to the database behind it, a database maps the
  name of a table to its contents. \<^verbatim>\<open>to_sql(name, engine, index=False,
  if_exists='replace')\<close> drops the table of that name when there is one and writes the
  frame, without its index, as the new table. Failures of the storage layer are not
  modelled.
\<close>

type_synonym database = "string \<Rightarrow> frame option"
type_synonym store = "string \<Rightarrow> database option"

definition create_engine :: "string \<Rightarrow> string" where
  "create_engine url = url"

definition to_sql :: "frame \<Rightarrow> string \<Rightarrow> string \<Rightarrow> store \<Rightarrow> store" where
  "to_sql df name engine st =
     st(engine \<mapsto> (case st engine of None \<Rightarrow> Map.empty | Some db \<Rightarrow> db)(name \<mapsto> df))"

definition save_data :: "frame \<Rightarrow> string \<Rightarrow> store \<Rightarrow> store" where
  "save_data df database_filename st =
     (let engine = create_engine (''sqlite:///'' @ database_filename)
      in to_sql df ''DisasterMessages'' engine st)"

section \<open>The pipeline\<close>

text \<open>
  \<^verbatim>\<open>main\<close> with \<^verbatim>\<open>sys.argv\<close> as \<open>argv\<close>: with four entries it loads, cleans and
  saves; an exception ends the run before anything is written. Otherwise it prints the
  usage text and leaves the store alone. The printed lines are not modelled.
\<close>

definition main :: "(string \<Rightarrow> error + frame) \<Rightarrow> string list \<Rightarrow> store \<Rightarrow> error + store" where
  "main read_csv argv st =
     (if length argv = 4 then
        (case load_data read_csv (argv ! 1) (argv ! 2) of
           Inl e \<Rightarrow> Inl e
         | Inr df \<Rightarrow>
             (case cleaned df of
                Inl e \<Rightarrow> Inl e
              | Inr df' \<Rightarrow> Inr (save_data df' (argv ! 3) st)))
      else Inr st)"

section \<open>Notions used in the statements\<close>

text \<open>A decimal digit; the value the Cleaner stores for a token whose last character
  is a digit; the tokens of the \<^verbatim>\<open>categories\<close> string of a row; a table of the
  store.\<close>

definition digit :: "char \<Rightarrow> bool" where
  "digit c = (c \<in> set ''0123456789'')"

definition binary_value :: "string \<Rightarrow> int" where
  "binary_value tok = (if int (of_char (last tok)) - 48 > 0 then 1 else 0)"

definition category_tokens :: "frame \<Rightarrow> cell list \<Rightarrow> string list" where
  "category_tokens df r =
     (case r ! hd (positions ''categories'' df) of
        Str s \<Rightarrow> split_on (CHR '';'') s
      | _ \<Rightarrow> [])"


definition lookup_table :: "store \<Rightarrow> string \<Rightarrow> string \<Rightarrow> frame option" where
  "lookup_table st url name = (case st url of None \<Rightarrow> None | Some db \<Rightarrow> db name)"

text \<open>
  The columns \<open>clean_data\<close> keeps, the names it gives to the derived columns (from
  the tokens of the first row), the row it builds from a row of its argument before
  duplicates are dropped and missing values filled, and the tables whose
  \<^verbatim>\<open>categories\<close> strings all split into the same number of non-empty tokens, with
  distinct names. The identifiers of a table are the cells of its \<^verbatim>\<open>id\<close> column.
\<close>

definition category_names :: "frame \<Rightarrow> string list" where
  "category_names df =
     map (\<lambda>tok. take (length tok - 2) tok) (category_tokens df (hd (rows df)))"

definition expanded_row :: "frame \<Rightarrow> cell list \<Rightarrow> cell list" where
  "expanded_row df r =
     drop_cells ''categories'' (colnames df) r @
     map (\<lambda>tok. Num (binary_value tok)) (category_tokens df r)"

definition kept_cols :: "frame \<Rightarrow> (string \<times> char) list" where
  "kept_cols df = filter (\<lambda>c. fst c \<noteq> ''categories'') (cols df)"

definition is_str :: "cell \<Rightarrow> bool" where
  "is_str x = (case x of Str s \<Rightarrow> True | _ \<Rightarrow> False)"

definition well_encoded :: "frame \<Rightarrow> bool" where
  "well_encoded df \<longleftrightarrow>
     length (positions ''categories'' df) = 1 \<and>
     kinds df ! hd (positions ''categories'' df) = CHR ''O'' \<and>
     rows df \<noteq> [] \<and>
     distinct (category_names df) \<and>
     (\<forall>r\<in>set (rows df).
        is_str (r ! hd (positions ''categories'' df)) \<and>
        length (category_tokens df r) = length (category_names df) \<and>
        [] \<notin> set (category_tokens df r))"

definition ids :: "frame \<Rightarrow> cell set" where
  "ids df = (case positions ''id'' df of [] \<Rightarrow> {} | i # _ \<Rightarrow> (\<lambda>r. r ! i) ` set (rows df))"

section \<open>Example tables\<close>

definition ex_messages :: frame where
  "ex_messages = \<lparr>cols = [(''id'', CHR ''i''), (''message'', CHR ''O'')],
     rows = [[Num 1, Str ''help''], [Num 2, Str ''food''], [Num 3, Str ''water'']]\<rparr>"

definition ex_categories :: frame where
  "ex_categories = \<lparr>cols = [(''id'', CHR ''i''), (''categories'', CHR ''O'')],
     rows = [[Num 1, Str ''related-1;aid-2''], [Num 2, Str ''related-0;aid-1''],
             [Num 4, Str ''related-0;aid-0'']]\<rparr>"

definition ex_joined :: frame where
  "ex_joined = \<lparr>cols = [(''id'', CHR ''i''), (''message'', CHR ''O''), (''categories'', CHR ''O'')],
     rows = [[Num 1, Str ''help'', Str ''related-1;aid-2''],
             [Num 2, Str ''food'', Str ''related-0;aid-1'']]\<rparr>"

definition ex_cleaned :: frame where
  "ex_cleaned = \<lparr>cols = [(''id'', CHR ''i''), (''message'', CHR ''O''),
                         (''related'', CHR ''i''), (''aid'', CHR ''i'')],
     rows = [[Num 1, Str ''help'', Num 1, Num 1], [Num 2, Str ''food'', Num 0, Num 1]]\<rparr>"

definition ex_read_csv :: "string \<Rightarrow> error + frame" where
  "ex_read_csv path =
     (if path = ''messages.csv'' then Inr ex_messages
      else if path = ''categories.csv'' then Inr ex_categories
      else Inl FileNotFoundError)"

definition ex_argv :: "string list" where
  "ex_argv = [''process_data.py'', ''messages.csv'', ''categories.csv'', ''out.db'']"

definition ex_empty :: frame where
  "ex_empty = \<lparr>cols = [(''id'', CHR ''i''), (''message'', CHR ''O''), (''categories'', CHR ''O'')],
     rows = []\<rparr>"

definition ex_missing :: frame where
  "ex_missing = \<lparr>cols = [(''id'', CHR ''i''), (''message'', CHR ''O''),
                         (''original'', CHR ''O''), (''categories'', CHR ''O'')],
     rows = [[Num 1, Str ''help'', NA, Str ''aid-1''],
             [Num 1, Str ''help'', Str ''.'', Str ''aid-1'']]\<rparr>"

definition ex_levels :: frame where
  "ex_levels = \<lparr>cols = [(''id'', CHR ''i''), (''message'', CHR ''O''), (''categories'', CHR ''O'')],
     rows = [[Num 1, Str ''help'', Str ''aid-1''], [Num 1, Str ''help'', Str ''aid-2'']]\<rparr>"

definition ex_ragged :: frame where
  "ex_ragged = \<lparr>cols = [(''id'', CHR ''i''), (''categories'', CHR ''O'')],
     rows = [[Num 1, Str ''a-1;b-x''], [Num 2, Str ''a-1'']]\<rparr>"

definition ex_letter :: frame where
  "ex_letter = \<lparr>cols = [(''id'', CHR ''i''), (''categories'', CHR ''O'')],
     rows = [[Num 1, Str ''a-1;b-0''], [Num 2, Str ''a-1;b-x'']]\<rparr>"

definition ex_missing_cleaned :: frame where
  "ex_missing_cleaned =
     \<lparr>cols = [(''id'', CHR ''i''), (''message'', CHR ''O''),
              (''original'', CHR ''O''), (''aid'', CHR ''i'')],
      rows = [[Num 1, Str ''help'', Str ''.'', Num 1],
              [Num 1, Str ''help'', Str ''.'', Num 1]]\<rparr>"

definition ex_others :: frame where
  "ex_others = \<lparr>cols = [(''id'', CHR ''i''), (''categories'', CHR ''O'')],
     rows = [[Num 7, Str ''related-1;aid-0''], [Num 8, Str ''related-0;aid-1'']]\<rparr>"


section \<open>Auxiliary facts\<close>

lemma mapE_Inr_D: "mapE f xs = Inr ys \<Longrightarrow> map f xs = map Inr ys"
  by (induction xs arbitrary: ys) (auto split: sum.splits)

lemma mapE_Inr_I: "map f xs = map Inr ys \<Longrightarrow> mapE f xs = Inr ys"
  by (induction xs arbitrary: ys) auto

lemma mapE_Inr_iff: "mapE f xs = Inr ys \<longleftrightarrow> map f xs = map Inr ys"
  by (blast intro: mapE_Inr_D mapE_Inr_I)

lemma mapE_length: "mapE f xs = Inr ys \<Longrightarrow> length ys = length xs"
  by (metis mapE_Inr_iff length_map)

lemma mapE_nth: "mapE f xs = Inr ys \<Longrightarrow> i < length xs \<Longrightarrow> f (xs ! i) = Inr (ys ! i)"
  by (metis mapE_Inr_iff length_map nth_map)

lemma mapE_Inl: "mapE f xs = Inl e \<Longrightarrow> \<exists>x\<in>set xs. f x = Inl e"
  by (induction xs) (auto split: sum.splits)

lemma fold_max_ge: "a \<le> fold max xs (a::nat)"
  by (induction xs arbitrary: a) (auto intro: order_trans [OF max.cobounded2])

lemma fold_max_upper: "x \<in> set xs \<Longrightarrow> x \<le> fold max xs (a::nat)"
  by (induction xs arbitrary: a) (auto intro: order_trans [OF max.cobounded1 fold_max_ge])

lemma set_dedup: "set (dedup seen xs) = set xs - set seen"
  by (induction xs arbitrary: seen) auto

lemma distinct_dedup: "distinct (dedup seen xs)"
  by (induction xs arbitrary: seen) (auto simp: set_dedup)

lemma dedup_id: "distinct xs \<Longrightarrow> set xs \<inter> set seen = {} \<Longrightarrow> dedup seen xs = xs"
  by (induction xs arbitrary: seen) auto

lemma set_drop_duplicates: "set (drop_duplicates xs) = set xs"
  by (simp add: drop_duplicates_def set_dedup)

lemma distinct_drop_duplicates: "distinct (drop_duplicates xs)"
  by (simp add: drop_duplicates_def distinct_dedup)

lemma drop_duplicates_id: "distinct xs \<Longrightarrow> drop_duplicates xs = xs"
  by (simp add: drop_duplicates_def dedup_id)

lemma split_on_nonempty: "split_on d s \<noteq> []"
  by (induction s) auto

lemma length_pad: "length (pad n r) = max n (length r)"
  by (simp add: pad_def)

lemma length_str_split_expand: "length (str_split_expand xs) = length xs"
  by (simp add: str_split_expand_def Let_def)

lemma str_split_expand_nth:
  "i < length xs \<Longrightarrow>
     str_split_expand xs ! i = pad (fold max (map (length \<circ> tokens) xs) 0) (tokens (xs ! i))"
  by (simp add: str_split_expand_def Let_def)

lemma tokens_le_width:
  "i < length xs \<Longrightarrow> length (tokens (xs ! i)) \<le> fold max (map (length \<circ> tokens) xs) 0"
  by (rule fold_max_upper) (auto simp: in_set_conv_nth intro!: image_eqI [where x = "xs ! i"])

lemma length_str_split_expand_nth:
  "i < length xs \<Longrightarrow>
     length (str_split_expand xs ! i) = fold max (map (length \<circ> tokens) xs) 0"
  using tokens_le_width [of i xs] by (simp add: str_split_expand_nth length_pad)

lemma distinct_count_list: "distinct xs \<longleftrightarrow> (\<forall>x\<in>set xs. count_list xs x = 1)"
proof (induction xs)
  case Nil
  then show ?case by simp
next
  case (Cons a xs)
  show ?case
  proof (cases "a \<in> set xs")
    case True
    then have "count_list xs a \<noteq> 0" by (simp add: count_list_0_iff)
    then show ?thesis using True by auto
  next
    case False
    then show ?thesis using Cons.IH by (auto simp: count_list_0_iff)
  qed
qed

lemma last_char_to_binary:
  assumes "last_char x = Inr c" and "to_binary c = Inr v"
  shows "\<exists>s. x = Str s \<and> s \<noteq> [] \<and> digit (last s) \<and> v = binary_value s"
  using assms
  by (auto simp: last_char_def to_binary_def py_int_def digit_def binary_value_def
           split: cell.splits if_splits sum.splits)

lemma convert_column_Inr:
  assumes "convert_column names (name, col) = Inr vs"
  shows "count_list names name = 1 \<and> length vs = length col \<and>
         (\<forall>i<length col. \<exists>s. col ! i = Str s \<and> s \<noteq> [] \<and> digit (last s) \<and>
                            vs ! i = binary_value s)"
proof -
  from assms have c: "count_list names name = 1"
    by (auto simp: convert_column_def split: if_splits)
  with assms obtain xs where xs: "mapE last_char col = Inr xs" and vs: "mapE to_binary xs = Inr vs"
    by (auto simp: convert_column_def split: sum.splits)
  have l: "length xs = length col" "length vs = length xs"
    using xs vs by (simp_all add: mapE_length)
  have "\<exists>s. col ! i = Str s \<and> s \<noteq> [] \<and> digit (last s) \<and> vs ! i = binary_value s"
    if "i < length col" for i
    using that l mapE_nth [OF xs, of i] mapE_nth [OF vs, of i]
    by (auto intro: last_char_to_binary)
  with c l show ?thesis by simp
qed

lemma columns_of_nth: "j < w \<Longrightarrow> columns_of w rs ! j = map (\<lambda>r. r ! j) rs"
  by (simp add: columns_of_def)

lemma convert_all_Inr:
  assumes "mapE (convert_column names) (zip names (columns_of (length names) cats)) = Inr converted"
  shows "distinct names \<and> length converted = length names \<and>
         (\<forall>j<length names. length (converted ! j) = length cats \<and>
            (\<forall>i<length cats. \<exists>s. cats ! i ! j = Str s \<and> s \<noteq> [] \<and> digit (last s) \<and>
                                converted ! j ! i = binary_value s))"
proof -
  let ?cs = "zip names (columns_of (length names) cats)"
  have len: "length ?cs = length names" by (simp add: columns_of_def)
  have lc: "length converted = length names"
    using mapE_length [OF assms] len by simp
  have each: "convert_column names (names ! j, map (\<lambda>r. r ! j) cats) = Inr (converted ! j)"
    if "j < length names" for j
    using mapE_nth [OF assms, of j] that len by (simp add: columns_of_def)
  have "count_list names x = 1" if "x \<in> set names" for x
  proof -
    from that obtain j where "j < length names" "names ! j = x"
      by (auto simp: in_set_conv_nth)
    with each [of j] convert_column_Inr show ?thesis by blast
  qed
  then have d: "distinct names" by (simp add: distinct_count_list)
  have "length (converted ! j) = length cats \<and>
        (\<forall>i<length cats. \<exists>s. cats ! i ! j = Str s \<and> s \<noteq> [] \<and> digit (last s) \<and>
                            converted ! j ! i = binary_value s)"
    if "j < length names" for j
    using convert_column_Inr [OF each [OF that]] by simp
  with d lc show ?thesis by blast
qed

lemma ex_merge: "merge ex_messages ex_categories = Inr ex_joined"
  by code_simp

lemma ex_clean: "clean_data ex_joined = (Inr ex_cleaned, drop_column ''categories'' ex_joined)"
  by code_simp

lemma ex_main: "main ex_read_csv ex_argv st = Inr (save_data ex_cleaned ''out.db'' st)"
  by (simp add: main_def ex_argv_def load_data_def ex_read_csv_def ex_merge cleaned_def ex_clean)

lemma to_sql_twice: "to_sql df name engine (to_sql df0 name engine st) = to_sql df name engine st"
  by (auto simp: to_sql_def fun_eq_iff)

lemma save_data_twice: "save_data df fn (save_data df0 fn st) = save_data df fn st"
  by (simp add: save_data_def Let_def to_sql_twice)

lemma tokens_length_pos: "0 < length (tokens x)"
  by (cases x) (simp_all add: tokens_def split_on_nonempty)

lemma split_row:
  assumes i: "i < length xs"
    and W: "W = fold max (map (length \<circ> tokens) xs) 0"
    and str: "\<forall>j<W. \<exists>s. str_split_expand xs ! i ! j = Str s"
  shows "\<exists>s. xs ! i = Str s \<and> length (split_on (CHR '';'') s) = W \<and>
             str_split_expand xs ! i = map Str (split_on (CHR '';'') s)"
proof -
  have row: "str_split_expand xs ! i = pad W (tokens (xs ! i))"
    using i W by (simp add: str_split_expand_nth)
  have le: "length (tokens (xs ! i)) \<le> W"
    using tokens_le_width [OF i] W by simp
  have pos: "0 < W" using le tokens_length_pos [of "xs ! i"] by linarith
  have full: "length (tokens (xs ! i)) = W"
  proof (rule ccontr)
    assume "length (tokens (xs ! i)) \<noteq> W"
    with le have lt: "length (tokens (xs ! i)) < W" by simp
    then have "pad W (tokens (xs ! i)) ! length (tokens (xs ! i)) = NA"
      by (simp add: pad_def nth_append)
    with str lt row show False by auto
  qed
  obtain s where s: "xs ! i = Str s"
  proof (cases "xs ! i")
    case (Str s)
    then show ?thesis using that by simp
  next
    case NA
    then have "pad W (tokens (xs ! i)) ! 0 = NA" by (simp add: tokens_def pad_def)
    with str pos row show ?thesis by auto
  next
    case (Num n)
    then have "pad W (tokens (xs ! i)) ! 0 = NA" by (simp add: tokens_def pad_def)
    with str pos row show ?thesis by auto
  qed
  with full row show ?thesis by (simp add: tokens_def pad_def)
qed

lemma cleaned_InrD:
  assumes "cleaned df = Inr out"
  shows "\<exists>ci row rest names converted.
           positions ''categories'' df = [ci] \<and> kinds df ! ci = CHR ''O'' \<and>
           str_split_expand (map (\<lambda>r. r ! ci) (rows df)) = row # rest \<and>
           mapE strip_suffix row = Inr names \<and>
           mapE (convert_column names) (zip names (columns_of (length row) (row # rest)))
             = Inr converted \<and>
           out = fillna ((concat_columns (drop_column ''categories'' df) names converted)
                   \<lparr>rows := drop_duplicates
                      (rows (concat_columns (drop_column ''categories'' df) names converted))\<rparr>)"
  using assms
  by (auto simp: cleaned_def clean_data_def Let_def split: list.splits if_splits sum.splits)

lemma strip_suffix_Str: "strip_suffix (Str s) = Inr (take (length s - 2) s)"
  by (simp add: strip_suffix_def)

lemma cleaned_Inr:
  assumes ok: "cleaned df = Inr out"
  shows "\<exists>ci. positions ''categories'' df = [ci] \<and> kinds df ! ci = CHR ''O''"
    and "rows df \<noteq> []"
    and "\<forall>r\<in>set (rows df).
           (\<exists>s. r ! hd (positions ''categories'' df) = Str s) \<and>
           length (category_tokens df r) = length (category_names df) \<and>
           (\<forall>tok\<in>set (category_tokens df r). tok \<noteq> [] \<and> digit (last tok))"
    and "distinct (category_names df)"
    and "cols out = filter (\<lambda>c. fst c \<noteq> ''categories'') (cols df) @
                    map (\<lambda>n. (n, CHR ''i'')) (category_names df)"
    and "rows out = map (fill_row (kinds out)) (drop_duplicates (map (expanded_row df) (rows df)))"
proof -
  from cleaned_InrD [OF ok] obtain ci row rest names converted where
    ci: "positions ''categories'' df = [ci]" and kind: "kinds df ! ci = CHR ''O''" and
    split: "str_split_expand (map (\<lambda>r. r ! ci) (rows df)) = row # rest" and
    names: "mapE strip_suffix row = Inr names" and
    conv: "mapE (convert_column names) (zip names (columns_of (length row) (row # rest)))
             = Inr converted" and
    out: "out = fillna ((concat_columns (drop_column ''categories'' df) names converted)
                   \<lparr>rows := drop_duplicates
                      (rows (concat_columns (drop_column ''categories'' df) names converted))\<rparr>)"
    by blast
  define cells where "cells = map (\<lambda>r. r ! ci) (rows df)"
  define cats where "cats = row # rest"
  define W where "W = fold max (map (length \<circ> tokens) cells) 0"
  define n where "n = length (rows df)"
  have cats: "str_split_expand cells = cats" using split by (simp add: cells_def cats_def)
  have lcells: "length cells = n" by (simp add: cells_def n_def)
  have lcats: "length cats = n" using cats lcells length_str_split_expand [of cells] by simp
  have npos: "0 < n" using lcats by (auto simp: cats_def)
  show ne: "rows df \<noteq> []" using npos by (auto simp: n_def)
  have row0: "row = cats ! 0" by (simp add: cats_def)
  have lrow: "length row = W"
    using length_str_split_expand_nth [of 0 cells] npos lcells cats row0 by (simp add: W_def)
  have lnames: "length names = W" using mapE_length [OF names] lrow by simp
  from conv have conv': "mapE (convert_column names) (zip names (columns_of (length names) cats))
      = Inr converted"
    by (simp add: lnames lrow cats_def)
  note C = convert_all_Inr [OF conv']
  have dn: "distinct names" and lconv: "length converted = W" using C lnames by simp_all
  have cellC: "\<exists>s. cats ! i ! j = Str s \<and> s \<noteq> [] \<and> digit (last s) \<and>
                 converted ! j ! i = binary_value s"
    if "i < n" "j < W" for i j
    using C that lnames lcats by simp
  have rowS: "\<exists>s. cells ! i = Str s \<and> length (split_on (CHR '';'') s) = W \<and>
                cats ! i = map Str (split_on (CHR '';'') s)"
    if i: "i < n" for i
  proof -
    have "\<forall>j<W. \<exists>s. str_split_expand cells ! i ! j = Str s"
      using cellC [OF i] cats by blast
    from split_row [OF _ W_def this] i lcells cats show ?thesis by simp
  qed
  have hdp: "hd (positions ''categories'' df) = ci" using ci by simp
  have toks: "\<exists>s. rows df ! i ! ci = Str s \<and> category_tokens df (rows df ! i) = split_on (CHR '';'') s \<and>
                length (split_on (CHR '';'') s) = W \<and> cats ! i = map Str (split_on (CHR '';'') s)"
    if i: "i < n" for i
    using rowS [OF i] i by (auto simp: cells_def n_def category_tokens_def hdp)
  have tokC: "category_tokens df (rows df ! i) ! j \<noteq> [] \<and>
              digit (last (category_tokens df (rows df ! i) ! j)) \<and>
              converted ! j ! i = binary_value (category_tokens df (rows df ! i) ! j)"
    if i: "i < n" and j: "j < W" for i j
    using toks [OF i] cellC [OF i j] j by auto
  have ltok: "length (category_tokens df (rows df ! i)) = W" if "i < n" for i
    using toks [OF that] by auto
  have hd0: "hd (rows df) = rows df ! 0" using ne by (simp add: hd_conv_nth)
  have nm: "names = category_names df"
  proof (rule nth_equalityI)
    show "length names = length (category_names df)"
      using lnames ltok [OF npos] by (simp add: category_names_def hd0)
  next
    fix j assume "j < length names"
    then have j: "j < W" using lnames by simp
    from toks [OF npos] obtain s where
      s: "category_tokens df (rows df ! 0) = split_on (CHR '';'') s"
         "length (split_on (CHR '';'') s) = W" "cats ! 0 = map Str (split_on (CHR '';'') s)"
      by blast
    have "strip_suffix (row ! j) = Inr (names ! j)"
      using mapE_nth [OF names, of j] j lrow by simp
    then show "names ! j = category_names df ! j"
      using s j row0 by (simp add: category_names_def hd0 strip_suffix_Str)
  qed
  show "\<exists>ci. positions ''categories'' df = [ci] \<and> kinds df ! ci = CHR ''O''"
    using ci kind by blast
  show "distinct (category_names df)" using dn nm by simp
  show "\<forall>r\<in>set (rows df).
           (\<exists>s. r ! hd (positions ''categories'' df) = Str s) \<and>
           length (category_tokens df r) = length (category_names df) \<and>
           (\<forall>tok\<in>set (category_tokens df r). tok \<noteq> [] \<and> digit (last tok))"
  proof
    fix r assume "r \<in> set (rows df)"
    then obtain i where i: "i < n" and r: "r = rows df ! i"
      by (auto simp: in_set_conv_nth n_def)
    have a: "\<exists>s. r ! hd (positions ''categories'' df) = Str s"
      using toks [OF i] r hdp by auto
    have b: "length (category_tokens df r) = length (category_names df)"
      using ltok [OF i] r nm lnames by simp
    have c: "tok \<noteq> [] \<and> digit (last tok)" if "tok \<in> set (category_tokens df r)" for tok
    proof -
      from that obtain j where "j < W" "tok = category_tokens df r ! j"
        using ltok [OF i] r by (auto simp: in_set_conv_nth)
      with tokC [OF i] r show ?thesis by simp
    qed
    from a b c show "(\<exists>s. r ! hd (positions ''categories'' df) = Str s) \<and>
           length (category_tokens df r) = length (category_names df) \<and>
           (\<forall>tok\<in>set (category_tokens df r). tok \<noteq> [] \<and> digit (last tok))"
      by blast
  qed
  show "cols out = filter (\<lambda>c. fst c \<noteq> ''categories'') (cols df) @
                    map (\<lambda>n. (n, CHR ''i'')) (category_names df)"
    by (simp add: out fillna_def concat_columns_def drop_column_def nm)
  have derived: "map (\<lambda>c. c ! i) converted =
                 map binary_value (category_tokens df (rows df ! i))" if i: "i < n" for i
  proof (rule nth_equalityI)
    show "length (map (\<lambda>c. c ! i) converted) =
          length (map binary_value (category_tokens df (rows df ! i)))"
      using lconv ltok [OF i] by simp
  next
    fix j assume "j < length (map (\<lambda>c. c ! i) converted)"
    then have j: "j < W" using lconv by simp
    then show "map (\<lambda>c. c ! i) converted ! j =
               map binary_value (category_tokens df (rows df ! i)) ! j"
      using tokC [OF i j] lconv ltok [OF i] by simp
  qed
  have rows2: "rows (concat_columns (drop_column ''categories'' df) names converted)
               = map (expanded_row df) (rows df)"
  proof (rule nth_equalityI)
    show "length (rows (concat_columns (drop_column ''categories'' df) names converted)) =
          length (map (expanded_row df) (rows df))"
      by (simp add: concat_columns_def drop_column_def rows_of_def)
  next
    fix i assume "i < length (rows (concat_columns (drop_column ''categories'' df) names converted))"
    then have i: "i < n"
      by (simp add: concat_columns_def drop_column_def rows_of_def n_def)
    then have i': "i < length (rows df)" by (simp add: n_def)
    show "rows (concat_columns (drop_column ''categories'' df) names converted) ! i =
          map (expanded_row df) (rows df) ! i"
      using i' derived [OF i]
      by (simp add: concat_columns_def drop_column_def rows_of_def expanded_row_def comp_def)
  qed
  show "rows out = map (fill_row (kinds out)) (drop_duplicates (map (expanded_row df) (rows df)))"
    by (simp add: out fillna_def rows2 kinds_def)
qed

lemma length_filter_zip_fst:
  "length xs = length ys \<Longrightarrow>
     length (filter (\<lambda>p. P (fst p)) (zip xs ys)) = length (filter P xs)"
  by (induction xs ys rule: list_induct2) auto

lemma length_drop_cells:
  assumes "length r = length names"
  shows "length (drop_cells name names r) = length (filter (\<lambda>n. n \<noteq> name) names)"
  using length_filter_zip_fst [of names r "\<lambda>n. n \<noteq> name"] assms
  by (simp add: drop_cells_def)

lemma length_kept_cols:
  "length (kept_cols df) = length (filter (\<lambda>n. n \<noteq> ''categories'') (colnames df))"
  by (simp add: kept_cols_def colnames_def filter_map comp_def)

lemma wf_frame_row: "wf_frame df \<Longrightarrow> r \<in> set (rows df) \<Longrightarrow> length r = length (cols df)"
  by (simp add: wf_frame_def list_all_iff)

lemma length_drop_cells_wf:
  assumes "wf_frame df" and "r \<in> set (rows df)"
  shows "length (drop_cells ''categories'' (colnames df) r) = length (kept_cols df)"
  using wf_frame_row [OF assms] by (simp add: length_drop_cells length_kept_cols colnames_def)

lemma fill_row_append:
  "length ks1 = length a \<Longrightarrow> fill_row (ks1 @ ks2) (a @ b) = fill_row ks1 a @ fill_row ks2 b"
  by (simp add: fill_row_def)

lemma fill_row_Num:
  "length ks = length xs \<Longrightarrow> fill_row ks (map (\<lambda>x. Num (f x)) xs) = map (\<lambda>x. Num (f x)) xs"
  by (induction ks xs rule: list_induct2) (simp_all add: fill_row_def fill_cell_def)

lemma fill_row_no_NA: "NA \<notin> set (fill_row ks r)"
proof
  assume "NA \<in> set (fill_row ks r)"
  then obtain p where "NA = fill_cell (fst p) (snd p)"
    by (auto simp: fill_row_def)
  then show False by (simp add: fill_cell_def split: if_splits)
qed

lemma fill_row_id: "length ks = length r \<Longrightarrow> NA \<notin> set r \<Longrightarrow> fill_row ks r = r"
  by (induction ks r rule: list_induct2) (auto simp: fill_row_def fill_cell_def)

lemma length_fill_row: "length (fill_row ks r) = min (length ks) (length r)"
  by (simp add: fill_row_def)

lemma fill_row_nth:
  "j < length ks \<Longrightarrow> j < length r \<Longrightarrow> fill_row ks r ! j = fill_cell (ks ! j) (r ! j)"
  by (simp add: fill_row_def)

lemma kinds_cleaned:
  assumes "cleaned df = Inr out"
  shows "kinds out = map snd (kept_cols df) @ map (\<lambda>n. CHR ''i'') (category_names df)"
    and "colnames out = map fst (kept_cols df) @ category_names df"
  using cleaned_Inr(5) [OF assms] by (simp_all add: kinds_def colnames_def kept_cols_def comp_def)

lemma filled_expanded_row:
  assumes ok: "cleaned df = Inr out" and wf: "wf_frame df" and r: "r \<in> set (rows df)"
  shows "fill_row (kinds out) (expanded_row df r) =
           fill_row (map snd (kept_cols df)) (drop_cells ''categories'' (colnames df) r) @
           map (\<lambda>tok. Num (binary_value tok)) (category_tokens df r)"
proof -
  have l: "length (category_tokens df r) = length (category_names df)"
    using cleaned_Inr(3) [OF ok] r by blast
  show ?thesis
    using length_drop_cells_wf [OF wf r] l
    by (simp add: kinds_cleaned(1) [OF ok] expanded_row_def fill_row_append fill_row_Num)
qed

lemma rows_cleaned:
  assumes "cleaned df = Inr out"
  shows "set (rows out) = (\<lambda>r. fill_row (kinds out) (expanded_row df r)) ` set (rows df)"
  using cleaned_Inr(6) [OF assms] by (simp add: set_drop_duplicates image_image)

lemma digit_py_int: "digit c \<Longrightarrow> py_int c = Inr (int (of_char c) - 48)"
  by (simp add: digit_def py_int_def)

lemma aid_2: "cleaned \<lparr>cols = [(''categories'', CHR ''O'')], rows = [[Str ''aid-2'']]\<rparr>
                = Inr \<lparr>cols = [(''aid'', CHR ''i'')], rows = [[Num 1]]\<rparr>"
  by code_simp

lemma length_expanded_row:
  assumes ok: "cleaned df = Inr out" and wf: "wf_frame df" and r: "r \<in> set (rows df)"
  shows "length (expanded_row df r) = length (cols out)"
proof -
  have "length (category_tokens df r) = length (category_names df)"
    using cleaned_Inr(3) [OF ok] r by blast
  then show ?thesis
    using length_drop_cells_wf [OF wf r] cleaned_Inr(5) [OF ok]
    by (simp add: expanded_row_def kept_cols_def)
qed

lemma set_drop_cells: "set (drop_cells name names r) \<subseteq> set r"
  by (auto simp: drop_cells_def dest: set_zip_rightD)

lemma expanded_row_no_NA: "NA \<notin> set r \<Longrightarrow> NA \<notin> set (expanded_row df r)"
  using set_drop_cells [of "''categories''" "colnames df" r]
  by (auto simp: expanded_row_def)

lemma rows_cleaned_no_NA:
  assumes ok: "cleaned df = Inr out" and wf: "wf_frame df"
    and full: "\<forall>r\<in>set (rows df). NA \<notin> set r"
  shows "rows out = drop_duplicates (map (expanded_row df) (rows df))"
proof -
  have "fill_row (kinds out) x = x"
    if "x \<in> set (drop_duplicates (map (expanded_row df) (rows df)))" for x
  proof -
    from that obtain r where r: "r \<in> set (rows df)" and x: "x = expanded_row df r"
      by (auto simp: set_drop_duplicates)
    have "length (kinds out) = length x"
      using length_expanded_row [OF ok wf r] x by (simp add: kinds_def)
    moreover have "NA \<notin> set x" using full r x expanded_row_no_NA by blast
    ultimately show ?thesis by (rule fill_row_id)
  qed
  then have "map (fill_row (kinds out)) (drop_duplicates (map (expanded_row df) (rows df)))
             = drop_duplicates (map (expanded_row df) (rows df))"
    by (simp add: map_idI)
  with cleaned_Inr(6) [OF ok] show ?thesis by simp
qed

lemma cleaned_KeyError: "positions ''categories'' df = [] \<Longrightarrow> cleaned df = Inl KeyError"
  by (simp add: cleaned_def clean_data_def)

lemma cleaned_not_strings:
  "positions ''categories'' df = [ci] \<Longrightarrow> kinds df ! ci \<noteq> CHR ''O'' \<Longrightarrow>
     cleaned df = Inl AttributeError"
  by (simp add: cleaned_def clean_data_def)

lemma cleaned_several:
  "positions ''categories'' df = a # b # cs \<Longrightarrow> cleaned df = Inl AttributeError"
  by (simp add: cleaned_def clean_data_def)

lemma reclean_raises:
  assumes ok: "cleaned df = Inr out"
  shows "cleaned out = Inl KeyError \<or> cleaned out = Inl AttributeError"
proof (cases "positions ''categories'' out")
  case Nil
  then show ?thesis by (simp add: cleaned_KeyError)
next
  case (Cons ci rest)
  show ?thesis
  proof (cases rest)
    case (Cons b cs)
    with \<open>positions ''categories'' out = ci # rest\<close> show ?thesis
      by (simp add: cleaned_several)
  next
    case Nil
    with \<open>positions ''categories'' out = ci # rest\<close>
    have p: "positions ''categories'' out = [ci]" by simp
    then have "ci \<in> set (positions ''categories'' out)" by simp
    then have lt: "ci < length (cols out)" and nm: "colnames out ! ci = ''categories''"
      by (simp_all add: positions_def)
    let ?A = "kept_cols df"
    have cn: "colnames out = map fst ?A @ category_names df"
      and kn: "kinds out = map snd ?A @ map (\<lambda>n. CHR ''i'') (category_names df)"
      using kinds_cleaned [OF ok] by simp_all
    have ge: "\<not> ci < length ?A"
    proof
      assume "ci < length ?A"
      then have "fst (?A ! ci) = ''categories''" using nm cn by (simp add: nth_append)
      moreover have "?A ! ci \<in> set ?A" using \<open>ci < length ?A\<close> by simp
      ultimately show False by (auto simp: kept_cols_def)
    qed
    have "ci - length ?A < length (category_names df)"
      using lt ge cn by (metis colnames_def length_append length_map less_diff_conv2 not_less add.commute)
    then have "kinds out ! ci = CHR ''i''" using ge kn by (simp add: nth_append)
    then show ?thesis using p by (simp add: cleaned_not_strings)
  qed
qed

lemma drop_duplicates_idem: "drop_duplicates (drop_duplicates xs) = drop_duplicates xs"
  by (simp add: drop_duplicates_id distinct_drop_duplicates)

lemma strip_suffix_Inl: "strip_suffix x = Inl e \<Longrightarrow> e = TypeError"
  by (auto simp: strip_suffix_def split: cell.splits)

lemma to_binary_Inl: "to_binary c = Inl e \<Longrightarrow> e = ValueError \<and> \<not> digit c"
  by (auto simp: to_binary_def py_int_def digit_def split: if_splits sum.splits)

lemma last_char_Inr: "last_char x = Inr c \<Longrightarrow> \<exists>s. x = Str s \<and> s \<noteq> [] \<and> c = last s"
  by (auto simp: last_char_def split: cell.splits if_splits)

lemma last_char_Inl: "last_char x = Inl e \<Longrightarrow> e \<noteq> ValueError \<and> (\<forall>s. x = Str s \<longrightarrow> s = [])"
  by (auto simp: last_char_def split: cell.splits if_splits)

lemma convert_column_ValueError:
  assumes "convert_column names (name, col) = Inl ValueError"
  shows "\<exists>i<length col. \<exists>s. col ! i = Str s \<and> s \<noteq> [] \<and> \<not> digit (last s)"
proof -
  from assms obtain xs where xs: "mapE last_char col = Inr xs"
    and b: "mapE to_binary xs = Inl ValueError"
    by (auto simp: convert_column_def split: if_splits sum.splits dest: mapE_Inl last_char_Inl)
  from mapE_Inl [OF b] obtain c where c: "c \<in> set xs" "to_binary c = Inl ValueError" by blast
  then obtain i where i: "i < length xs" "xs ! i = c" by (auto simp: in_set_conv_nth)
  have l: "length xs = length col" using xs by (simp add: mapE_length)
  have "last_char (col ! i) = Inr c" using mapE_nth [OF xs, of i] i l by simp
  then obtain s where "col ! i = Str s" "s \<noteq> []" "c = last s" using last_char_Inr by blast
  moreover from c(2) have "\<not> digit c" by (rule to_binary_Inl [THEN conjunct2])
  ultimately have "i < length col \<and> col ! i = Str s \<and> s \<noteq> [] \<and> \<not> digit (last s)"
    using i l by simp
  then show ?thesis by blast
qed

lemma split_cell:
  assumes i: "i < length xs" and j: "j < fold max (map (length \<circ> tokens) xs) 0"
    and s: "str_split_expand xs ! i ! j = Str s"
  shows "\<exists>s0. xs ! i = Str s0 \<and> j < length (split_on (CHR '';'') s0) \<and>
              s = split_on (CHR '';'') s0 ! j"
proof -
  let ?W = "fold max (map (length \<circ> tokens) xs) 0"
  have row: "pad ?W (tokens (xs ! i)) ! j = Str s"
    using s i by (simp add: str_split_expand_nth)
  show ?thesis
  proof (cases "xs ! i")
    case (Str s0)
    show ?thesis
    proof (cases "j < length (split_on (CHR '';'') s0)")
      case True
      with row Str show ?thesis by (simp add: tokens_def pad_def nth_append)
    next
      case False
      with row Str j show ?thesis by (simp add: tokens_def pad_def nth_append)
    qed
  next
    case NA
    with row j show ?thesis by (cases j) (simp_all add: tokens_def pad_def nth_append)
  next
    case (Num n)
    with row j show ?thesis by (cases j) (simp_all add: tokens_def pad_def nth_append)
  qed
qed

lemma cleaned_ValueError:
  assumes "cleaned df = Inl ValueError"
  shows "\<exists>r\<in>set (rows df). \<exists>tok\<in>set (category_tokens df r). tok \<noteq> [] \<and> \<not> digit (last tok)"
proof -
  from assms obtain ci row rest names where
    ci: "positions ''categories'' df = [ci]" and
    split: "str_split_expand (map (\<lambda>r. r ! ci) (rows df)) = row # rest" and
    names: "mapE strip_suffix row = Inr names" and
    conv: "mapE (convert_column names) (zip names (columns_of (length row) (row # rest)))
             = Inl ValueError"
    by (auto simp: cleaned_def clean_data_def Let_def
             split: list.splits if_splits sum.splits dest!: mapE_Inl strip_suffix_Inl)
  define cells where "cells = map (\<lambda>r. r ! ci) (rows df)"
  define W where "W = fold max (map (length \<circ> tokens) cells) 0"
  define cats where "cats = row # rest"
  have cats: "str_split_expand cells = cats" using split by (simp add: cells_def cats_def)
  have n: "length cats = length (rows df)"
    using length_str_split_expand [of cells] cats by (simp add: cells_def)
  have ne: "0 < length cells" using n by (auto simp: cells_def cats_def)
  have lrow: "length row = W"
    using length_str_split_expand_nth [OF ne] cats by (simp add: W_def cats_def)
  from mapE_Inl [OF conv] obtain p where
    p: "p \<in> set (zip names (columns_of W cats))"
       "convert_column names p = Inl ValueError"
    using lrow by (auto simp: cats_def)
  then obtain j where j: "j < W" "snd p = columns_of W cats ! j"
    by (auto simp: in_set_zip columns_of_def)
  then have col: "snd p = map (\<lambda>r. r ! j) cats" by (simp add: columns_of_nth)
  from convert_column_ValueError [of names "fst p" "snd p"] p(2)
  obtain i s where i: "i < length (snd p)" and s: "snd p ! i = Str s" "s \<noteq> []" "\<not> digit (last s)"
    by auto
  have i': "i < length (rows df)" using i col n by simp
  have "cats ! i ! j = Str s" using s(1) i unfolding col by simp
  then have "str_split_expand cells ! i ! j = Str s" using cats by simp
  from split_cell [OF _ _ this] i' j(1)
  obtain s0 where s0: "cells ! i = Str s0" "j < length (split_on (CHR '';'') s0)"
      "s = split_on (CHR '';'') s0 ! j"
    by (auto simp: cells_def W_def)
  have "category_tokens df (rows df ! i) = split_on (CHR '';'') s0"
    using s0(1) i' ci by (simp add: category_tokens_def cells_def)
  then have "s \<in> set (category_tokens df (rows df ! i))" using s0 by simp
  with s i' show ?thesis by (metis nth_mem)
qed

lemma fold_max_const:
  "xs \<noteq> [] \<Longrightarrow> \<forall>x\<in>set xs. x = L \<Longrightarrow> fold max xs (a::nat) = max L a"
proof (induction xs arbitrary: a)
  case Nil
  then show ?case by simp
next
  case (Cons x xs)
  show ?case
  proof (cases "xs = []")
    case True
    with Cons.prems show ?thesis by simp
  next
    case False
    with Cons show ?thesis by (simp add: max.assoc)
  qed
qed

lemma is_str_iff: "is_str x \<longleftrightarrow> (\<exists>s. x = Str s)"
  by (cases x) (simp_all add: is_str_def)

lemma well_encoded_split:
  assumes we: "well_encoded df" and ci: "positions ''categories'' df = [ci]"
  shows "str_split_expand (map (\<lambda>r. r ! ci) (rows df))
           = map (\<lambda>r. map Str (category_tokens df r)) (rows df)"
proof -
  let ?L = "length (category_names df)"
  have tk: "tokens (r ! ci) = map Str (category_tokens df r) \<and>
            length (category_tokens df r) = ?L" if "r \<in> set (rows df)" for r
    using we that ci by (auto simp: well_encoded_def is_str_iff tokens_def category_tokens_def)
  have ne: "rows df \<noteq> []" using we by (simp add: well_encoded_def)
  have "fold max (map (length \<circ> tokens) (map (\<lambda>r. r ! ci) (rows df))) 0 = max ?L 0"
    by (rule fold_max_const) (use ne tk in auto)
  then have W: "fold max (map length (map tokens (map (\<lambda>r. r ! ci) (rows df)))) 0 = ?L"
    by (simp add: comp_def)
  show ?thesis
    unfolding str_split_expand_def Let_def W
    using tk by (simp add: pad_def)
qed

lemma well_encoded_error:
  assumes we: "well_encoded df" and err: "cleaned df = Inl e"
  shows "e = ValueError"
proof -
  from we obtain ci where ci: "positions ''categories'' df = [ci]"
    by (cases "positions ''categories'' df") (auto simp: well_encoded_def)
  have kind: "kinds df ! ci = CHR ''O''" and ne: "rows df \<noteq> []"
    and dn: "distinct (category_names df)"
    using we ci by (simp_all add: well_encoded_def)
  define cats where "cats = map (\<lambda>r. map Str (category_tokens df r)) (rows df)"
  define names where "names = category_names df"
  have split: "str_split_expand (map (\<lambda>r. r ! ci) (rows df)) = cats"
    using well_encoded_split [OF we ci] by (simp add: cats_def)
  obtain row rest where rr: "cats = row # rest" "row = map Str (category_tokens df (hd (rows df)))"
    using ne by (cases "rows df") (auto simp: cats_def)
  have "map strip_suffix row = map Inr names"
    by (simp add: rr(2) names_def category_names_def strip_suffix_Str)
  then have nm: "mapE strip_suffix row = Inr names" by (rule mapE_Inr_I)
  have lrow: "length row = length names" using nm by (simp add: mapE_length)
  from err have "\<exists>converted. mapE (convert_column names) (zip names (columns_of (length row) cats))
                   = Inl e"
    using ci kind split rr(1) nm
    by (simp add: cleaned_def clean_data_def Let_def split: sum.splits)
  then obtain p where p: "p \<in> set (zip names (columns_of (length names) cats))"
      "convert_column names p = Inl e"
    using mapE_Inl lrow by metis
  then obtain j where j: "j < length names" "fst p = names ! j"
      "snd p = columns_of (length names) cats ! j"
    by (auto simp: in_set_zip columns_of_def)
  have cnt: "count_list names (fst p) = 1"
    using dn j by (simp add: names_def distinct_count_list)
  have cells: "\<exists>s. x = Str s \<and> s \<noteq> []" if "x \<in> set (snd p)" for x
  proof -
    from that j obtain r where r: "r \<in> set (rows df)" "x = map Str (category_tokens df r) ! j"
      by (auto simp: columns_of_nth cats_def)
    have "length (category_tokens df r) = length names" "[] \<notin> set (category_tokens df r)"
      using we r(1) by (simp_all add: well_encoded_def names_def)
    then show ?thesis using r(2) j(1) by (auto simp: in_set_conv_nth)
  qed
  have "\<exists>xs. mapE last_char (snd p) = Inr xs"
  proof (cases "mapE last_char (snd p)")
    case (Inl e')
    from mapE_Inl [OF this] obtain x where "x \<in> set (snd p)" "last_char x = Inl e'" by blast
    with cells last_char_Inl show ?thesis by blast
  next
    case (Inr xs)
    then show ?thesis by blast
  qed
  then obtain xs where xs: "mapE last_char (snd p) = Inr xs" by blast
  with p(2) cnt have "mapE to_binary xs = Inl e" by (simp add: convert_column_def)
  from mapE_Inl [OF this] to_binary_Inl show ?thesis by blast
qed

lemma ex_letter_facts:
  "well_encoded ex_letter \<and> ''b-x'' \<in> set (category_tokens ex_letter (rows ex_letter ! 1)) \<and>
   rows ex_letter ! 1 \<in> set (rows ex_letter) \<and> \<not> digit (last ''b-x'')"
  by code_simp

lemma ex_cleaned_ok: "cleaned ex_joined = Inr ex_cleaned"
  by (simp add: cleaned_def ex_clean)

lemma ex_joined_wf: "wf_frame ex_joined"
  by (simp add: wf_frame_def ex_joined_def)

lemma ex_joined_full: "\<forall>r\<in>set (rows ex_joined). NA \<notin> set r"
  by (simp add: ex_joined_def)

lemma ex_missing_ok: "cleaned ex_missing = Inr ex_missing_cleaned"
  by code_simp

lemma ex_missing_wf: "wf_frame ex_missing"
  by (simp add: wf_frame_def ex_missing_def)

lemma ex_joined_digits:
  "\<forall>r\<in>set (rows ex_joined). \<forall>tok\<in>set (category_tokens ex_joined r). tok = [] \<or> digit (last tok)"
  by code_simp

lemma filter_upt_first:
  "(\<exists>rest. filter P [0..<n] = i # rest) \<longleftrightarrow> i < n \<and> P i \<and> (\<forall>k<i. \<not> P k)"
proof
  assume "\<exists>rest. filter P [0..<n] = i # rest"
  then obtain rest where eq: "filter P [0..<n] = i # rest" by blast
  then have "i \<in> set (filter P [0..<n])" by simp
  then have a: "i < n" "P i" by simp_all
  have "sorted (filter P [0..<n])" by (simp add: sorted_wrt_filter)
  then have le: "\<forall>x\<in>set (i # rest). i \<le> x" using eq by auto
  have "\<not> P k" if "k < i" for k
  proof
    assume "P k"
    then have "k \<in> set (filter P [0..<n])" using that a(1) by simp
    with le eq that show False by auto
  qed
  with a show "i < n \<and> P i \<and> (\<forall>k<i. \<not> P k)" by blast
next
  assume h: "i < n \<and> P i \<and> (\<forall>k<i. \<not> P k)"
  then have "[0..<n] = [0..<i] @ i # [Suc i..<n]"
    by (metis less_imp_add_positive upt_add_eq_append upt_conv_Cons zero_le add.left_neutral less_imp_le)
  moreover have "filter P [0..<i] = []" using h by (simp add: filter_empty_conv)
  ultimately show "\<exists>rest. filter P [0..<n] = i # rest" using h by simp
qed

lemma positions_first:
  "(\<exists>rest. positions name df = i # rest) \<longleftrightarrow>
     i < length (cols df) \<and> colnames df ! i = name \<and> (\<forall>k<i. colnames df ! k \<noteq> name)"
  unfolding positions_def by (rule filter_upt_first)

lemma add_suffix_id:
  "2 < length suffix \<Longrightarrow> fst (add_suffix others suffix c) = ''id'' \<longleftrightarrow> fst c = ''id''"
proof -
  assume l: "2 < length suffix"
  have "fst c @ suffix \<noteq> ''id''"
  proof
    assume "fst c @ suffix = ''id''"
    then have "length (fst c @ suffix) = length ''id''" by (rule arg_cong)
    with l show False by simp
  qed
  then show ?thesis by (auto simp: add_suffix_def)
qed

lemma length_remove_nth: "j < length xs \<Longrightarrow> length (remove_nth j xs) = length xs - 1"
  by (simp add: remove_nth_def)

lemma merge_Inr:
  assumes "merge left right = Inr df"
  shows "\<exists>i j ri rj. positions ''id'' left = i # ri \<and> positions ''id'' right = j # rj \<and>
           cols df = map (add_suffix (colnames right) ''_left'') (cols left) @
                     map (add_suffix (colnames left) ''_right'') (remove_nth j (cols right)) \<and>
           rows df = concat (map (\<lambda>l. map (\<lambda>r. l @ remove_nth j r)
                                   (filter (\<lambda>r. l ! i = r ! j) (rows right))) (rows left))"
  using assms by (auto simp: merge_def split: list.splits)

lemma merge_ids:
  assumes m: "merge left right = Inr df" and wfl: "wf_frame left" and wfr: "wf_frame right"
  shows "ids df = ids left \<inter> ids right"
    and "wf_frame df"
    and "\<exists>i rest. positions ''id'' df = i # rest"
proof -
  from merge_Inr [OF m] obtain i j ri rj where
    pl: "positions ''id'' left = i # ri" and pr: "positions ''id'' right = j # rj" and
    c: "cols df = map (add_suffix (colnames right) ''_left'') (cols left) @
                  map (add_suffix (colnames left) ''_right'') (remove_nth j (cols right))" and
    r: "rows df = concat (map (\<lambda>l. map (\<lambda>r. l @ remove_nth j r)
                                   (filter (\<lambda>r. l ! i = r ! j) (rows right))) (rows left))"
    by blast
  from pl have i: "i < length (cols left)" "colnames left ! i = ''id''"
      "\<forall>k<i. colnames left ! k \<noteq> ''id''"
    using positions_first [of "''id''" left i] by blast+
  from pr have j: "j < length (cols right)"
    using positions_first [of "''id''" right j] by blast
  have nm: "colnames df ! k = ''id'' \<longleftrightarrow> colnames left ! k = ''id''" if "k < length (cols left)" for k
    using that by (simp add: colnames_def c nth_append add_suffix_id)
  have "i < length (cols df) \<and> colnames df ! i = ''id'' \<and> (\<forall>k<i. colnames df ! k \<noteq> ''id'')"
    using i nm by (simp add: c)
  then obtain rest where pd: "positions ''id'' df = i # rest"
    using positions_first [of "''id''" df i] by blast
  then show "\<exists>i rest. positions ''id'' df = i # rest" by blast
  have li: "i < length l" if "l \<in> set (rows left)" for l
    using wf_frame_row [OF wfl that] i(1) by simp
  have rs: "set (rows df) = {l @ remove_nth j r | l r.
               l \<in> set (rows left) \<and> r \<in> set (rows right) \<and> l ! i = r ! j}"
    by (auto simp: r)
  have idf: "ids df = (\<lambda>x. x ! i) ` set (rows df)" by (simp add: ids_def pd)
  have il: "ids left = (\<lambda>l. l ! i) ` set (rows left)" by (simp add: ids_def pl)
  have ir: "ids right = (\<lambda>r. r ! j) ` set (rows right)" by (simp add: ids_def pr)
  show "ids df = ids left \<inter> ids right"
  proof (rule set_eqI)
    fix v
    show "v \<in> ids df \<longleftrightarrow> v \<in> ids left \<inter> ids right"
    proof
      assume "v \<in> ids df"
      then obtain l r' where lr: "l \<in> set (rows left)" "r' \<in> set (rows right)" "l ! i = r' ! j"
        and v: "v = (l @ remove_nth j r') ! i"
        unfolding idf rs by blast
      have vl: "v = l ! i" using v li [OF lr(1)] by (simp add: nth_append)
      then have "v \<in> (\<lambda>l. l ! i) ` set (rows left)" using lr(1) by (rule image_eqI)
      moreover have "v = r' ! j" using vl lr(3) by simp
      then have "v \<in> (\<lambda>r. r ! j) ` set (rows right)" using lr(2) by (rule image_eqI)
      ultimately show "v \<in> ids left \<inter> ids right" unfolding il ir by blast
    next
      assume "v \<in> ids left \<inter> ids right"
      then obtain l r' where lr: "l \<in> set (rows left)" "r' \<in> set (rows right)"
        "v = l ! i" "v = r' ! j"
        unfolding il ir by auto
      then have "l ! i = r' ! j" by simp
      with lr(1,2) have "l @ remove_nth j r' \<in> set (rows df)" unfolding rs by blast
      moreover have "(l @ remove_nth j r') ! i = v" using lr li by (simp add: nth_append)
      ultimately show "v \<in> ids df" unfolding idf by force
    qed
  qed
  have "length x = length (cols df)" if "x \<in> set (rows df)" for x
  proof -
    from that obtain l r' where "l \<in> set (rows left)" "r' \<in> set (rows right)"
      "x = l @ remove_nth j r'"
      by (auto simp: r)
    then show ?thesis
      using wf_frame_row [OF wfl] wf_frame_row [OF wfr] j
      by (simp add: c length_remove_nth)
  qed
  then show "wf_frame df" by (simp add: wf_frame_def list_all_iff)
qed

lemma drop_cells_nth:
  "length names = length r \<Longrightarrow> i < length names \<Longrightarrow> names ! i \<noteq> c \<Longrightarrow>
     drop_cells c names r ! length (filter (\<lambda>n. n \<noteq> c) (take i names)) = r ! i"
proof (induction names r arbitrary: i rule: list_induct2)
  case Nil
  then show ?case by simp
next
  case (Cons n ns x xs)
  show ?case
  proof (cases i)
    case 0
    with Cons.prems show ?thesis by (simp add: drop_cells_def)
  next
    case (Suc k)
    with Cons.prems Cons.IH [of k] show ?thesis by (simp add: drop_cells_def)
  qed
qed

lemma filter_take_first:
  assumes "i < length names" and "names ! i = x" and "\<forall>k<i. names ! k \<noteq> x" and "P x"
  shows "length (filter P (take i names)) < length (filter P names)"
    and "filter P names ! length (filter P (take i names)) = x"
    and "\<forall>k<length (filter P (take i names)). filter P names ! k \<noteq> x"
proof -
  have split: "names = take i names @ x # drop (Suc i) names"
    using assms(1,2) by (metis id_take_nth_drop)
  have f: "filter P names = filter P (take i names) @ x # filter P (drop (Suc i) names)"
    using assms(4) by (subst split) simp
  show "length (filter P (take i names)) < length (filter P names)"
    by (subst f) simp
  show "filter P names ! length (filter P (take i names)) = x"
    by (subst f) (simp add: nth_append)
  have "x \<notin> set (take i names)"
    using assms(1,3) by (auto simp: in_set_conv_nth)
  then have nx: "x \<notin> set (filter P (take i names))" by simp
  show "\<forall>k<length (filter P (take i names)). filter P names ! k \<noteq> x"
  proof (intro allI impI)
    fix k assume k: "k < length (filter P (take i names))"
    then have "filter P names ! k = filter P (take i names) ! k"
      by (subst f) (simp add: nth_append)
    moreover have "filter P (take i names) ! k \<in> set (filter P (take i names))"
      using k by (rule nth_mem)
    ultimately show "filter P names ! k \<noteq> x" using nx by metis
  qed
qed

lemma cleaned_ids:
  assumes ok: "cleaned df = Inr out" and wf: "wf_frame df"
    and pos: "positions ''id'' df = i # rest" and full: "NA \<notin> ids df"
  shows "ids out = ids df"
proof -
  define names where "names = colnames df"
  define kept where "kept = filter (\<lambda>n. n \<noteq> ''categories'') names"
  define i' where "i' = length (filter (\<lambda>n. n \<noteq> ''categories'') (take i names))"
  from pos have i: "i < length names" "names ! i = ''id''" "\<forall>k<i. names ! k \<noteq> ''id''"
    using positions_first [of "''id''" df i] by (auto simp: colnames_def names_def)
  have P: "''id'' \<noteq> ''categories''" by simp
  have F1: "i' < length kept" and F2: "kept ! i' = ''id''"
    and F3: "\<forall>k<i'. kept ! k \<noteq> ''id''"
    using filter_take_first [OF i, of "\<lambda>n. n \<noteq> ''categories''", OF P]
    unfolding i'_def kept_def by blast+
  have kn: "map fst (kept_cols df) = kept"
    by (simp add: kept_cols_def colnames_def filter_map comp_def kept_def names_def)
  have cn: "colnames out = kept @ category_names df"
    using kinds_cleaned(2) [OF ok] kn by simp
  have lco: "length (cols out) = length kept + length (category_names df)"
    using arg_cong [OF cn, of length] by (simp add: colnames_def)
  have "i' < length (cols out) \<and> colnames out ! i' = ''id'' \<and>
        (\<forall>k<i'. colnames out ! k \<noteq> ''id'')"
  proof (intro conjI allI impI)
    show "i' < length (cols out)" using F1 lco by simp
    show "colnames out ! i' = ''id''" using F1 F2 by (simp add: cn nth_append)
    fix k assume "k < i'"
    then show "colnames out ! k \<noteq> ''id''" using F1 F3 by (simp add: cn nth_append)
  qed
  then obtain rest' where po: "positions ''id'' out = i' # rest'"
    using positions_first [of "''id''" out i'] by blast
  have cell: "fill_row (kinds out) (expanded_row df r) ! i' = r ! i"
    if r: "r \<in> set (rows df)" for r
  proof -
    have lr: "length names = length r"
      using wf_frame_row [OF wf r] by (simp add: colnames_def names_def)
    have ld: "length (drop_cells ''categories'' names r) = length kept"
      using lr by (simp add: length_drop_cells kept_def)
    have "drop_cells ''categories'' names r ! i' = r ! i"
      unfolding i'_def using lr i(1) by (rule drop_cells_nth) (simp add: i(2))
    then have a: "expanded_row df r ! i' = r ! i"
      using F1 ld by (simp add: expanded_row_def nth_append names_def)
    have "i' < length (kinds out)" using F1 lco by (simp add: kinds_def)
    moreover have "i' < length (expanded_row df r)"
      using F1 ld by (simp add: expanded_row_def names_def)
    ultimately have "fill_row (kinds out) (expanded_row df r) ! i'
        = fill_cell (kinds out ! i') (r ! i)"
      using a by (simp add: fill_row_nth)
    moreover have "r ! i \<in> ids df" using r by (simp add: ids_def pos)
    then have "r ! i \<noteq> NA" using full by metis
    ultimately show ?thesis by (simp add: fill_cell_def)
  qed
  have "ids out = (\<lambda>r'. r' ! i') ` set (rows out)" by (simp add: ids_def po)
  also have "\<dots> = (\<lambda>r. fill_row (kinds out) (expanded_row df r) ! i') ` set (rows df)"
    by (simp add: rows_cleaned [OF ok] image_image)
  also have "\<dots> = (\<lambda>r. r ! i) ` set (rows df)"
    by (rule image_cong) (simp_all add: cell)
  also have "\<dots> = ids df" by (simp add: ids_def pos)
  finally show ?thesis .
qed

lemma ex_read_wf: "\<forall>path t. ex_read_csv path = Inr t \<longrightarrow> wf_frame t"
  by (auto simp: ex_read_csv_def wf_frame_def ex_messages_def ex_categories_def split: if_splits)

lemma ex_load: "load_data ex_read_csv ''messages.csv'' ''categories.csv'' = Inr ex_joined"
  by (simp add: load_data_def ex_read_csv_def ex_merge)

lemma ex_ids:
  "ids ex_messages = {Num 1, Num 2, Num 3} \<and> ids ex_categories = {Num 1, Num 2, Num 4} \<and>
   ids ex_joined = {Num 1, Num 2} \<and> ids ex_cleaned = {Num 1, Num 2}"
  by (auto simp: ids_def positions_def colnames_def upt_rec
                 ex_messages_def ex_categories_def ex_joined_def ex_cleaned_def)

lemma cleaned_no_rows: "rows df = [] \<Longrightarrow> \<exists>e. cleaned df = Inl e"
  by (auto simp: cleaned_def clean_data_def str_split_expand_def split: list.splits)

lemma merge_disjoint:
  assumes m: "merge messages categories = Inr df"
    and wf: "wf_frame messages" "wf_frame categories"
    and dis: "ids messages \<inter> ids categories = {}"
  shows "rows df = []"
proof -
  from merge_ids(3) [OF m wf] obtain i rest where "positions ''id'' df = i # rest" by blast
  then have "ids df = (\<lambda>r. r ! i) ` set (rows df)" by (simp add: ids_def)
  with merge_ids(1) [OF m wf] dis show ?thesis by simp
qed

lemma ex_others_facts:
  "merge ex_messages ex_others = Inr ex_empty \<and> wf_frame ex_messages \<and> wf_frame ex_others"
  by code_simp

lemma ex_others_ids: "ids ex_messages \<inter> ids ex_others = {}"
  by (auto simp: ids_def positions_def colnames_def upt_rec ex_messages_def ex_others_def)


section \<open>The claims\<close>

subsection \<open>C1\<close>

text \<open>
  Claim C1. When \<open>clean_data\<close> returns a table, its header is the kept columns
  followed by the derived columns, and its rows are exactly the rows of the argument
  turned into the kept fields followed by one number per token of the row's
  \<^verbatim>\<open>categories\<close> string: 1 when the integer read from the last character of the token
  is greater than 0, and 0 otherwise. Every token there is has a digit as its last
  character, every row has one token per derived column, and every derived value is 0
  or 1. The token \<^verbatim>\<open>aid-2\<close> gives the value 1 in the column \<^verbatim>\<open>aid\<close>.
\<close>

theorem derived_values_binary:
  assumes ok: "cleaned df = Inr out" and wf: "wf_frame df"
  shows "colnames out = map fst (kept_cols df) @ category_names df \<and>
         (\<forall>r'\<in>set (rows out). \<exists>r\<in>set (rows df). \<exists>fields.
             length fields = length (kept_cols df) \<and>
             length (category_tokens df r) = length (category_names df) \<and>
             r' = fields @ map (\<lambda>tok. Num (binary_value tok)) (category_tokens df r)) \<and>
         (\<forall>r\<in>set (rows df). \<exists>r'\<in>set (rows out). \<exists>fields.
             length fields = length (kept_cols df) \<and>
             r' = fields @ map (\<lambda>tok. Num (binary_value tok)) (category_tokens df r)) \<and>
         (\<forall>r\<in>set (rows df). \<forall>tok\<in>set (category_tokens df r). \<exists>d.
             tok \<noteq> [] \<and> py_int (last tok) = Inr d \<and>
             to_binary (last tok) = Inr (binary_value tok) \<and>
             binary_value tok = (if d > 0 then 1 else 0)) \<and>
         (\<forall>r'\<in>set (rows out). \<forall>x\<in>set (drop (length (kept_cols df)) r'). x = Num 0 \<or> x = Num 1) \<and>
         cleaned \<lparr>cols = [(''categories'', CHR ''O'')], rows = [[Str ''aid-2'']]\<rparr>
           = Inr \<lparr>cols = [(''aid'', CHR ''i'')], rows = [[Num 1]]\<rparr>"
proof -
  let ?msg = "\<lambda>r. fill_row (map snd (kept_cols df)) (drop_cells ''categories'' (colnames df) r)"
  have lmsg: "length (?msg r) = length (kept_cols df)" if "r \<in> set (rows df)" for r
    using length_drop_cells_wf [OF wf that] by (simp add: length_fill_row)
  have ltok: "length (category_tokens df r) = length (category_names df)"
    if "r \<in> set (rows df)" for r
    using cleaned_Inr(3) [OF ok] that by blast
  have img: "set (rows out) =
      (\<lambda>r. ?msg r @ map (\<lambda>tok. Num (binary_value tok)) (category_tokens df r)) ` set (rows df)"
    using rows_cleaned [OF ok] filled_expanded_row [OF ok wf] by auto
  have A: "\<forall>r'\<in>set (rows out). \<exists>r\<in>set (rows df). \<exists>fields.
             length fields = length (kept_cols df) \<and>
             length (category_tokens df r) = length (category_names df) \<and>
             r' = fields @ map (\<lambda>tok. Num (binary_value tok)) (category_tokens df r)"
    using img lmsg ltok by (auto simp: image_iff)
  have B: "\<forall>r\<in>set (rows df). \<exists>r'\<in>set (rows out). \<exists>fields.
             length fields = length (kept_cols df) \<and>
             r' = fields @ map (\<lambda>tok. Num (binary_value tok)) (category_tokens df r)"
    using img lmsg by (auto simp: image_iff)
  have C: "\<forall>r\<in>set (rows df). \<forall>tok\<in>set (category_tokens df r). \<exists>d.
             tok \<noteq> [] \<and> py_int (last tok) = Inr d \<and>
             to_binary (last tok) = Inr (binary_value tok) \<and>
             binary_value tok = (if d > 0 then 1 else 0)"
  proof (intro ballI)
    fix r tok assume "r \<in> set (rows df)" "tok \<in> set (category_tokens df r)"
    then have "tok \<noteq> []" "digit (last tok)" using cleaned_Inr(3) [OF ok] by blast+
    then show "\<exists>d. tok \<noteq> [] \<and> py_int (last tok) = Inr d \<and>
             to_binary (last tok) = Inr (binary_value tok) \<and>
             binary_value tok = (if d > 0 then 1 else 0)"
      by (simp add: digit_py_int to_binary_def binary_value_def)
  qed
  have D: "\<forall>r'\<in>set (rows out). \<forall>x\<in>set (drop (length (kept_cols df)) r'). x = Num 0 \<or> x = Num 1"
  proof (intro ballI)
    fix r' x assume r': "r' \<in> set (rows out)" and x: "x \<in> set (drop (length (kept_cols df)) r')"
    from A r' obtain r fields where "length fields = length (kept_cols df)"
      "r' = fields @ map (\<lambda>tok. Num (binary_value tok)) (category_tokens df r)" by blast
    with x show "x = Num 0 \<or> x = Num 1" by (auto simp: binary_value_def)
  qed
  from kinds_cleaned(2) [OF ok] A B C D aid_2 show ?thesis by blast
qed

text \<open>
  The example table meets the hypotheses of C1; its token \<^verbatim>\<open>aid-2\<close> is stored as 1.
\<close>

theorem derived_values_binary_witness:
  "cleaned ex_joined = Inr ex_cleaned \<and> wf_frame ex_joined \<and>
   colnames ex_cleaned = map fst (kept_cols ex_joined) @ category_names ex_joined \<and>
   to_binary (last ''aid-2'') = Inr 1"
proof -
  have "''aid-2'' \<in> set (category_tokens ex_joined (rows ex_joined ! 0))" by code_simp
  moreover have "rows ex_joined ! 0 \<in> set (rows ex_joined)" by (simp add: ex_joined_def)
  moreover have "binary_value ''aid-2'' = 1" by (simp add: binary_value_def)
  ultimately show ?thesis
    using derived_values_binary [OF ex_cleaned_ok ex_joined_wf] ex_cleaned_ok ex_joined_wf
    by fastforce
qed

subsection \<open>C2\<close>

text \<open>
  Claim C2. When \<open>load_data\<close> returns a table, both files were read, and the
  identifiers of the table are exactly those present in both inputs: every row carries,
  in the \<^verbatim>\<open>id\<close> column, an identifier of the messages and of the categories, and no
  identifier that lacks a match on either side appears. When no identifier is missing,
  the table \<open>clean_data\<close> returns for it has those same identifiers.
\<close>

theorem join_correctness:
  assumes load: "load_data read_csv messages_filepath categories_filepath = Inr df"
    and wf: "\<forall>path t. read_csv path = Inr t \<longrightarrow> wf_frame t"
  shows "\<exists>messages categories.
           read_csv messages_filepath = Inr messages \<and>
           read_csv categories_filepath = Inr categories \<and>
           ids df = ids messages \<inter> ids categories \<and>
           (\<forall>r\<in>set (rows df). \<exists>i rest. positions ''id'' df = i # rest \<and>
               r ! i \<in> ids messages \<and> r ! i \<in> ids categories) \<and>
           (\<forall>out. cleaned df = Inr out \<and> NA \<notin> ids df \<longrightarrow>
               ids out = ids messages \<inter> ids categories)"
proof -
  from load obtain messages categories where
    rm: "read_csv messages_filepath = Inr messages" and
    rc: "read_csv categories_filepath = Inr categories" and
    m: "merge messages categories = Inr df"
    by (auto simp: load_data_def split: sum.splits)
  have wfm: "wf_frame messages" and wfc: "wf_frame categories" using wf rm rc by blast+
  note M = merge_ids [OF m wfm wfc]
  from M(3) obtain i rest where pos: "positions ''id'' df = i # rest" by blast
  have rowsin: "\<forall>r\<in>set (rows df). \<exists>i rest. positions ''id'' df = i # rest \<and>
               r ! i \<in> ids messages \<and> r ! i \<in> ids categories"
  proof
    fix r assume "r \<in> set (rows df)"
    then have "r ! i \<in> ids df" by (simp add: ids_def pos)
    then show "\<exists>i rest. positions ''id'' df = i # rest \<and>
               r ! i \<in> ids messages \<and> r ! i \<in> ids categories"
      using M(1) pos by blast
  qed
  have "ids out = ids messages \<inter> ids categories"
    if "cleaned df = Inr out" "NA \<notin> ids df" for out
    using cleaned_ids [OF that(1) M(2) pos that(2)] M(1) by simp
  with rm rc M(1) rowsin show ?thesis by blast
qed

text \<open>
  The example files meet the hypotheses of C2: the identifiers 3 and 4, each present in
  one input only, are not in the joined table.
\<close>

theorem join_correctness_witness:
  "load_data ex_read_csv ''messages.csv'' ''categories.csv'' = Inr ex_joined \<and>
   cleaned ex_joined = Inr ex_cleaned \<and>
   ids ex_joined = ids ex_messages \<inter> ids ex_categories \<and>
   ids ex_cleaned = ids ex_messages \<inter> ids ex_categories \<and>
   Num 3 \<notin> ids ex_joined \<and> Num 4 \<notin> ids ex_joined"
proof -
  have rd: "ex_read_csv ''messages.csv'' = Inr ex_messages"
      "ex_read_csv ''categories.csv'' = Inr ex_categories"
    by (simp_all add: ex_read_csv_def)
  have "NA \<notin> ids ex_joined" using ex_ids by simp
  then show ?thesis
    using join_correctness [OF ex_load ex_read_wf] rd ex_load ex_cleaned_ok ex_ids
    by auto
qed

subsection \<open>C3\<close>

text \<open>
  Claim C3, as amended. \<open>clean_data\<close> changes the object it is given in one way:
  when it returns a table, the argument has lost its \<^verbatim>\<open>categories\<close> column (dropped in
  place); when it raises, the argument is as it was.
\<close>

theorem clean_data_argument:
  "snd (clean_data df) =
     (case cleaned df of Inl e \<Rightarrow> df | Inr out \<Rightarrow> drop_column ''categories'' df)"
  by (simp add: cleaned_def clean_data_def Let_def split: list.splits sum.splits)

text \<open>
  Claim C3 as stated fails: after cleaning the example table, the object passed in is
  no longer the table it was; its \<^verbatim>\<open>categories\<close> column is gone.
\<close>

theorem clean_data_side_effect_counterexample:
  "cleaned ex_joined = Inr ex_cleaned \<and> snd (clean_data ex_joined) \<noteq> ex_joined \<and>
   ''categories'' \<in> set (colnames ex_joined) \<and>
   ''categories'' \<notin> set (colnames (snd (clean_data ex_joined)))"
  by (simp add: cleaned_def ex_clean) (simp add: ex_joined_def drop_column_def colnames_def)

subsection \<open>C4\<close>

text \<open>
  Claim C4, as amended. \<open>clean_data\<close> applied to a table it has returned raises:
  KeyError, the \<^verbatim>\<open>categories\<close> column being gone, or AttributeError when a derived
  column has that very label. Dropping duplicates a second time from the table whose
  duplicates were dropped removes nothing; and when no field of the argument was
  missing, the returned rows are pairwise different, so that dropping duplicates from
  them removes nothing either.
\<close>

theorem reclean:
  assumes ok: "cleaned df = Inr out"
  shows "(cleaned out = Inl KeyError \<or> cleaned out = Inl AttributeError) \<and>
         drop_duplicates (drop_duplicates (map (expanded_row df) (rows df)))
           = drop_duplicates (map (expanded_row df) (rows df)) \<and>
         (wf_frame df \<and> (\<forall>r\<in>set (rows df). NA \<notin> set r) \<longrightarrow>
            drop_duplicates (rows out) = rows out)"
proof -
  have "drop_duplicates (rows out) = rows out"
    if "wf_frame df" "\<forall>r\<in>set (rows df). NA \<notin> set r"
    using rows_cleaned_no_NA [OF ok that] by (simp add: drop_duplicates_idem)
  with reclean_raises [OF ok] drop_duplicates_idem show ?thesis by blast
qed

text \<open>
  The example table meets the hypotheses of C4.
\<close>

theorem reclean_witness:
  "cleaned ex_joined = Inr ex_cleaned \<and> wf_frame ex_joined \<and>
   cleaned ex_cleaned = Inl KeyError \<and> drop_duplicates (rows ex_cleaned) = rows ex_cleaned"
proof -
  have "cleaned ex_cleaned \<noteq> Inl AttributeError" by code_simp
  then show ?thesis
    using reclean [OF ex_cleaned_ok] ex_cleaned_ok ex_joined_wf ex_joined_full by blast
qed

text \<open>
  Claim C4 as stated fails: cleaning the cleaned example table returns no table.
\<close>

theorem reclean_counterexample:
  "cleaned ex_joined = Inr ex_cleaned \<and> cleaned ex_cleaned = Inl KeyError"
  by code_simp

subsection \<open>C5\<close>

text \<open>
  Claim C5. A run of the pipeline that ends normally leaves a store on which the same
  run, with the same files and arguments, ends normally again and changes nothing; and
  \<open>save_data\<close> replaces whatever an earlier \<open>save_data\<close> to the same file had
  stored, so that only the last frame written is kept.
\<close>

theorem pipeline_overwrite_idempotent:
  assumes "main read_csv argv st = Inr st1"
  shows "main read_csv argv st1 = Inr st1 \<and>
         (\<forall>df df0 fn st0. save_data df fn (save_data df0 fn st0) = save_data df fn st0)"
  using assms
  by (auto simp: main_def save_data_twice split: if_splits sum.splits)

text \<open>
  The example run ends normally, and running it again leaves the store as it is.
\<close>

theorem pipeline_overwrite_idempotent_witness:
  "main ex_read_csv ex_argv Map.empty = Inr (save_data ex_cleaned ''out.db'' Map.empty) \<and>
   main ex_read_csv ex_argv (save_data ex_cleaned ''out.db'' Map.empty)
     = Inr (save_data ex_cleaned ''out.db'' Map.empty) \<and>
   lookup_table (save_data ex_cleaned ''out.db'' Map.empty) ''sqlite:///out.db'' ''DisasterMessages''
     = Some ex_cleaned"
  using pipeline_overwrite_idempotent [OF ex_main [of Map.empty]]
  by (simp add: ex_main lookup_table_def save_data_def to_sql_def create_engine_def)

subsection \<open>C6\<close>

text \<open>
  Claim C6. In the table \<open>clean_data\<close> returns no cell is missing. Every row of it
  has one cell per column and comes from a row built from the argument: a cell that was
  missing there is 0 in a column whose kind is one of \<^verbatim>\<open>biufc\<close> and the string
  \<^verbatim>\<open>.\<close> in any other column; a cell that was not missing is unchanged.
\<close>

theorem no_missing_values:
  assumes ok: "cleaned df = Inr out" and wf: "wf_frame df"
  shows "\<forall>r'\<in>set (rows out).
           NA \<notin> set r' \<and> length r' = length (cols out) \<and>
           (\<exists>r\<in>set (rows df).
              length (expanded_row df r) = length (cols out) \<and>
              (\<forall>j<length (cols out).
                 r' ! j = (if expanded_row df r ! j = NA
                           then (if kinds out ! j \<in> set ''biufc'' then Num 0 else Str ''.'')
                           else expanded_row df r ! j)))"
proof
  fix r' assume "r' \<in> set (rows out)"
  then obtain r where r: "r \<in> set (rows df)"
    and r': "r' = fill_row (kinds out) (expanded_row df r)"
    using rows_cleaned [OF ok] by auto
  have len: "length (expanded_row df r) = length (cols out)"
    by (rule length_expanded_row [OF ok wf r])
  have lk: "length (kinds out) = length (cols out)" by (simp add: kinds_def)
  have a: "NA \<notin> set r'" using r' by (simp add: fill_row_no_NA)
  have b: "length r' = length (cols out)" using r' len lk by (simp add: length_fill_row)
  have c: "r' ! j = (if expanded_row df r ! j = NA
                     then (if kinds out ! j \<in> set ''biufc'' then Num 0 else Str ''.'')
                     else expanded_row df r ! j)" if "j < length (cols out)" for j
    using that r' len lk by (simp add: fill_row_nth fill_cell_def)
  from a b c len r
  show "NA \<notin> set r' \<and> length r' = length (cols out) \<and>
           (\<exists>r\<in>set (rows df).
              length (expanded_row df r) = length (cols out) \<and>
              (\<forall>j<length (cols out).
                 r' ! j = (if expanded_row df r ! j = NA
                           then (if kinds out ! j \<in> set ''biufc'' then Num 0 else Str ''.'')
                           else expanded_row df r ! j)))"
    by blast
qed

text \<open>
  The example with a missing \<^verbatim>\<open>original\<close> field meets the hypotheses of C6.
\<close>

theorem no_missing_values_witness:
  "cleaned ex_missing = Inr ex_missing_cleaned \<and> wf_frame ex_missing \<and>
   NA \<in> set (rows ex_missing ! 0) \<and> NA \<notin> set (rows ex_missing_cleaned ! 0)"
proof -
  have "rows ex_missing_cleaned ! 0 \<in> set (rows ex_missing_cleaned)"
    by (simp add: ex_missing_cleaned_def)
  moreover have "NA \<in> set (rows ex_missing ! 0)" by (simp add: ex_missing_def)
  ultimately show ?thesis
    using no_missing_values [OF ex_missing_ok ex_missing_wf] ex_missing_ok ex_missing_wf
    by blast
qed

subsection \<open>C7\<close>

text \<open>
  Claim C7, as amended. Duplicates are dropped once, after the category columns are
  derived and before missing values are filled. The table at that point holds every
  row built from a row of the argument exactly once, so that rows of the argument with
  the same kept fields and the same derived values collapse into one, and the returned
  table has as many rows as there are different built rows. When no field of the
  argument is missing, the returned rows are those built rows and are pairwise
  different.
\<close>

theorem duplicates_collapse:
  assumes ok: "cleaned df = Inr out"
  shows "(\<exists>d. distinct d \<and> set d = expanded_row df ` set (rows df) \<and>
              rows out = map (fill_row (kinds out)) d) \<and>
         length (rows out) = card (expanded_row df ` set (rows df)) \<and>
         (wf_frame df \<and> (\<forall>r\<in>set (rows df). NA \<notin> set r) \<longrightarrow>
            distinct (rows out) \<and> set (rows out) = expanded_row df ` set (rows df))"
proof -
  let ?d = "drop_duplicates (map (expanded_row df) (rows df))"
  have d: "distinct ?d" "set ?d = expanded_row df ` set (rows df)"
    by (simp_all add: distinct_drop_duplicates set_drop_duplicates)
  have ro: "rows out = map (fill_row (kinds out)) ?d" by (rule cleaned_Inr(6) [OF ok])
  have "length (rows out) = length ?d" using ro by simp
  also have "\<dots> = card (set ?d)" using d(1) by (simp add: distinct_card)
  finally have c: "length (rows out) = card (expanded_row df ` set (rows df))"
    using d(2) by simp
  have "distinct (rows out) \<and> set (rows out) = expanded_row df ` set (rows df)"
    if "wf_frame df" "\<forall>r\<in>set (rows df). NA \<notin> set r"
    using rows_cleaned_no_NA [OF ok that] d by simp
  with d ro c show ?thesis by blast
qed

text \<open>
  The example table meets the hypotheses of C7.
\<close>

theorem duplicates_collapse_witness:
  "cleaned ex_joined = Inr ex_cleaned \<and> wf_frame ex_joined \<and> distinct (rows ex_cleaned) \<and>
   length (rows ex_cleaned) = card (expanded_row ex_joined ` set (rows ex_joined))"
  using duplicates_collapse [OF ex_cleaned_ok] ex_cleaned_ok ex_joined_wf ex_joined_full
  by blast

text \<open>
  Claim C7 as stated fails twice. Two rows that differ (a missing \<^verbatim>\<open>original\<close> in
  one, the string \<^verbatim>\<open>.\<close> in the other) come out as two identical rows, the missing
  value being filled after the duplicates were dropped. And two rows that differ in
  their tokens only (\<^verbatim>\<open>aid-1\<close>, \<^verbatim>\<open>aid-2\<close>) come out as one row.
\<close>

theorem duplicates_collapse_counterexample:
  "distinct (rows ex_missing) \<and>
   cleaned ex_missing =
     Inr \<lparr>cols = [(''id'', CHR ''i''), (''message'', CHR ''O''),
                  (''original'', CHR ''O''), (''aid'', CHR ''i'')],
          rows = [[Num 1, Str ''help'', Str ''.'', Num 1],
                  [Num 1, Str ''help'', Str ''.'', Num 1]]\<rparr> \<and>
   distinct (rows ex_levels) \<and>
   cleaned ex_levels =
     Inr \<lparr>cols = [(''id'', CHR ''i''), (''message'', CHR ''O''), (''aid'', CHR ''i'')],
          rows = [[Num 1, Str ''help'', Num 1]]\<rparr>"
  by code_simp

subsection \<open>C8\<close>

text \<open>
  Claim C8, as amended. When some token of some row ends in a character that is not a
  digit, \<open>clean_data\<close> raises and returns no table; on a table whose strings all split
  into the same number of non-empty tokens with distinct names, the exception is the
  ValueError of the integer conversion. When every token is empty or ends in a digit,
  \<open>clean_data\<close> does not raise ValueError.
\<close>

theorem non_digit_raises:
  "((\<exists>r\<in>set (rows df). \<exists>tok\<in>set (category_tokens df r). tok \<noteq> [] \<and> \<not> digit (last tok)) \<longrightarrow>
      (\<exists>e. cleaned df = Inl e) \<and> (well_encoded df \<longrightarrow> cleaned df = Inl ValueError)) \<and>
   ((\<forall>r\<in>set (rows df). \<forall>tok\<in>set (category_tokens df r). tok = [] \<or> digit (last tok)) \<longrightarrow>
      cleaned df \<noteq> Inl ValueError)"
proof -
  have raises: "\<exists>e. cleaned df = Inl e"
    if "\<exists>r\<in>set (rows df). \<exists>tok\<in>set (category_tokens df r). tok \<noteq> [] \<and> \<not> digit (last tok)"
  proof (cases "cleaned df")
    case (Inl e)
    then show ?thesis by blast
  next
    case (Inr out)
    from cleaned_Inr(3) [OF this] that show ?thesis by blast
  qed
  have "cleaned df \<noteq> Inl ValueError"
    if "\<forall>r\<in>set (rows df). \<forall>tok\<in>set (category_tokens df r). tok = [] \<or> digit (last tok)"
    using cleaned_ValueError [of df] that by blast
  with raises well_encoded_error show ?thesis by blast
qed

text \<open>
  A table with the token \<^verbatim>\<open>b-x\<close> raises ValueError; the example table, whose tokens
  all end in digits, does not.
\<close>

theorem non_digit_raises_witness:
  "well_encoded ex_letter \<and> cleaned ex_letter = Inl ValueError \<and>
   cleaned ex_joined \<noteq> Inl ValueError"
proof -
  have "\<exists>r\<in>set (rows ex_letter). \<exists>tok\<in>set (category_tokens ex_letter r).
          tok \<noteq> [] \<and> \<not> digit (last tok)"
    using ex_letter_facts by blast
  then show ?thesis
    using non_digit_raises [of ex_letter] non_digit_raises [of ex_joined]
      ex_letter_facts ex_joined_digits
    by blast
qed

text \<open>
  Claim C8 as stated fails: with the token \<^verbatim>\<open>b-x\<close> in the first row and a second row
  one token short, the exception is the TypeError of \<^verbatim>\<open>x[-1]\<close> on the missing token,
  raised before any integer conversion of that column.
\<close>

theorem non_digit_raises_counterexample:
  "''b-x'' \<in> set (category_tokens ex_ragged (rows ex_ragged ! 0)) \<and>
   \<not> digit (last ''b-x'') \<and> cleaned ex_ragged = Inl TypeError"
  by code_simp

subsection \<open>C9\<close>

text \<open>
  Claim C9. On a table without rows \<open>clean_data\<close> raises and returns no table: when
  the \<^verbatim>\<open>categories\<close> column is there, with strings as its type, the exception is the
  IndexError of reading the first row of the split table. The argument is left as it
  was. Two inputs without a common identifier are joined into such a table.
\<close>

theorem clean_data_empty_raises:
  assumes "rows df = []"
  shows "(\<exists>e. cleaned df = Inl e) \<and> snd (clean_data df) = df \<and>
         (positions ''categories'' df = [ci] \<and> kinds df ! ci = CHR ''O''
            \<longrightarrow> cleaned df = Inl IndexError) \<and>
         (\<forall>messages categories joined.
            merge messages categories = Inr joined \<and> wf_frame messages \<and>
            wf_frame categories \<and> ids messages \<inter> ids categories = {}
            \<longrightarrow> rows joined = [] \<and> (\<exists>e. cleaned joined = Inl e))"
proof -
  have a: "(\<exists>e. cleaned df = Inl e) \<and> snd (clean_data df) = df \<and>
         (positions ''categories'' df = [ci] \<and> kinds df ! ci = CHR ''O''
            \<longrightarrow> cleaned df = Inl IndexError)"
    using assms
    by (auto simp: cleaned_def clean_data_def str_split_expand_def split: list.splits)
  have "rows joined = [] \<and> (\<exists>e. cleaned joined = Inl e)"
    if "merge messages categories = Inr joined" "wf_frame messages" "wf_frame categories"
       "ids messages \<inter> ids categories = {}" for messages categories joined
    using merge_disjoint [OF that] cleaned_no_rows by blast
  with a show ?thesis by blast
qed

text \<open>
  The example table without rows raises IndexError; it is the join of two inputs
  without a common identifier.
\<close>

theorem clean_data_empty_raises_witness:
  "rows ex_empty = [] \<and> cleaned ex_empty = Inl IndexError \<and> snd (clean_data ex_empty) = ex_empty \<and>
   merge ex_messages ex_others = Inr ex_empty \<and> ids ex_messages \<inter> ids ex_others = {}"
proof -
  have h: "rows ex_empty = []" by (simp add: ex_empty_def)
  have p: "positions ''categories'' ex_empty = [2] \<and> kinds ex_empty ! 2 = CHR ''O''"
    by (simp add: positions_def ex_empty_def colnames_def kinds_def upt_rec)
  from clean_data_empty_raises [OF h, of 2] p h ex_others_facts ex_others_ids
  show ?thesis by blast
qed

subsection \<open>C10\<close>

text \<open>
  Claim C10. After \<open>save_data\<close> the frame is the table \<^verbatim>\<open>DisasterMessages\<close> of the
  database at \<^verbatim>\<open>sqlite:///\<close> followed by the file name, for every frame, file name
  and store; every other table of every database is as it was. The table name does not
  depend on the arguments.
\<close>

theorem save_data_table_name:
  "lookup_table (save_data df database_filename st) url name =
     (if url = ''sqlite:///'' @ database_filename \<and> name = ''DisasterMessages'' then Some df
      else lookup_table st url name)"
  by (simp add: lookup_table_def save_data_def to_sql_def create_engine_def Let_def
           split: option.splits)

end
